theory Spec2Isabelle
  imports Main "HOL-Library.AList"
begin

section \<open>The host framework: module trees\<close>

text \<open>
  The functions of \<^verbatim>\<open>llmcompressor/utils/pytorch/module.py\<close> work on a module tree that
  the deep-learning framework owns. The tree is modelled as the specification describes
  it: strictly hierarchical, every node with a runtime class, an ordered dictionary of
  directly owned parameters and an ordered dictionary of child nodes. Ordered dictionaries
  are association lists whose insertion is \<^const>\<open>AList.update\<close> (an existing key keeps
  its position, a new key goes to the end), as Python's \<^verbatim>\<open>dict\<close> does.

  \<^verbatim>\<open>isinstance\<close> asks for the framework classes the runtime class derives from; they
  are the field \<open>bases\<close>. The class's simple name (\<^verbatim>\<open>__class__.__name__\<close>) is the field
  \<open>class_name\<close>.
\<close>

datatype kind = Linear | ConvNd | QATLinear | QATConv2d | QATConv3d | TransformerConv1D
  | InternalModule

datatype 'p module = Module (class_name: string) (bases: "kind list")
  (parameters: "(string \<times> 'p) list") (modules: "(string \<times> 'p module) list")

text \<open>
  A layer object is a reference: the place of the node in the tree (the attribute names
  leading to it from the root) together with the node found there. \<^verbatim>\<open>setattr\<close> on a
  layer changes the tree at that place.
\<close>

type_synonym 'p layer = "string list \<times> 'p module"

definition isinstance :: "'p module \<Rightarrow> kind \<Rightarrow> bool" where
  "isinstance m k = (k \<in> set (bases m))"

text \<open>
  \<^verbatim>\<open>Module.named_modules\<close>: the node itself under the prefix, then every child's subtree
  in declaration order under \<^verbatim>\<open>prefix + ("." if prefix else "") + name\<close>.
\<close>

fun named_modules_from :: "string \<Rightarrow> string list \<Rightarrow> 'p module \<Rightarrow> (string \<times> 'p layer) list" where
  "named_modules_from prefix path (Module c b ps cs) =
     (prefix, (path, Module c b ps cs)) #
     concat (map (\<lambda>(name, child).
        named_modules_from (prefix @ (if prefix = [] then [] else ''.'') @ name)
          (path @ [name]) child) cs)"

definition named_modules :: "'p module \<Rightarrow> (string \<times> 'p layer) list" where
  "named_modules m = named_modules_from [] [] m"

text \<open>
  \<^verbatim>\<open>Module.named_parameters\<close> (recursive): for every node of the subtree, in the order of
  \<^verbatim>\<open>named_modules\<close>, its own parameters under \<^verbatim>\<open>module_prefix + ("." if module_prefix else "") + k\<close>.
\<close>

definition named_parameters :: "'p module \<Rightarrow> (string \<times> 'p) list" where
  "named_parameters m =
     concat (map (\<lambda>(module_prefix, l).
        map (\<lambda>(k, v). (module_prefix @ (if module_prefix = [] then [] else ''.'') @ k, v))
          (parameters (snd l))) (named_modules m))"

text \<open>
  The framework's own invariants on a tree: attribute names are non-empty and contain no
  dot, the names of a node's parameters and children are pairwise distinct (they are
  dictionary keys and attributes of one object).
\<close>

definition attr_name_ok :: "string \<Rightarrow> bool" where
  "attr_name_ok k = (k \<noteq> [] \<and> CHR ''.'' \<notin> set k)"

fun wf_module :: "'p module \<Rightarrow> bool" where
  "wf_module (Module c b ps cs) =
     (distinct (map fst ps @ map fst cs) \<and>
      list_all (\<lambda>(k, v). attr_name_ok k) ps \<and>
      list_all (\<lambda>(k, child). attr_name_ok k \<and> wf_module child) cs)"

text \<open>Reading and changing the node at a place of the tree.\<close>

fun get_at :: "'p module \<Rightarrow> string list \<Rightarrow> 'p module option" where
  "get_at m [] = Some m"
| "get_at m (k # ks) = (case map_of (modules m) k of None \<Rightarrow> None | Some child \<Rightarrow> get_at child ks)"

fun update_at :: "string list \<Rightarrow> ('p module \<Rightarrow> 'p module) \<Rightarrow> 'p module \<Rightarrow> 'p module" where
  "update_at [] f m = f m"
| "update_at (k # ks) f (Module c b ps cs) =
     Module c b ps (map (\<lambda>(name, child). (name, if name = k then update_at ks f child else child)) cs)"

section \<open>The environment of the module\<close>

text \<open>
  What the source file imports and does not define: \<^verbatim>\<open>re.match\<close> (is there a match of the
  pattern at position 0 of the string; patterns are taken to compile),
  \<^verbatim>\<open>fix_fsdp_module_name\<close>, the length that \<^verbatim>\<open>difflib.SequenceMatcher.find_longest_match\<close>
  reports, and whether the optional classes were importable when the file was loaded
  (a global that is \<^verbatim>\<open>None\<close> is False here).
\<close>

record env =
  re_match :: "string \<Rightarrow> string \<Rightarrow> bool"
  fix_fsdp_module_name :: "string \<Rightarrow> string"
  find_longest_match :: "string \<Rightarrow> string \<Rightarrow> nat"
  has_QATLinear :: bool
  has_QATConv2d :: bool
  has_QATConv3d :: bool
  has_TransformerConv1D :: bool

datatype error =
    TargetsNotFound "string list"
  | ExpectedOne string nat
  | ImportError
  | AttributeError string
  | TypeError string
  | KeyError string

datatype targets = Str string | Lst "string list"

datatype 'p entity = Layer "'p layer" | Param 'p

section \<open>The source file\<close>

definition ALL_TARGET :: string where
  "ALL_TARGET = ''__ALL__''"

definition ALL_PRUNABLE_TARGET :: string where
  "ALL_PRUNABLE_TARGET = ''__ALL_PRUNABLE__''"

definition ALL_QUANTIZABLE_TARGET :: string where
  "ALL_QUANTIZABLE_TARGET = ''__ALL_QUANTIZABLE__''"

text \<open>\<^verbatim>\<open>if isinstance(targets, str): targets = [targets]\<close>\<close>

fun as_list :: "targets \<Rightarrow> string list" where
  "as_list (Str s) = [s]"
| "as_list (Lst ts) = ts"

text \<open>The loop of \<^verbatim>\<open>match_targets\<close> over \<^verbatim>\<open>enumerate(targets)\<close>, from a running index.\<close>

fun match_targets_from :: "env \<Rightarrow> string \<Rightarrow> int \<Rightarrow> string list \<Rightarrow> bool \<times> int" where
  "match_targets_from E name index [] = (False, -1)"
| "match_targets_from E name index (target # rest) =
     (if take 3 target = ''re:'' then
        (if re_match E (drop 3 target) name then (True, index)
         else match_targets_from E name (index + 1) rest)
      else if name = target then (True, index)
      else match_targets_from E name (index + 1) rest)"

definition match_targets :: "env \<Rightarrow> string \<Rightarrow> targets \<Rightarrow> bool \<times> int" where
  "match_targets E name targets = match_targets_from E name 0 (as_list targets)"

fun match_class_from :: "'p module \<Rightarrow> int \<Rightarrow> string list \<Rightarrow> bool \<times> int" where
  "match_class_from layer index [] = (False, -1)"
| "match_class_from layer index (target # rest) =
     (if class_name layer = target then (True, index)
      else match_class_from layer (index + 1) rest)"

definition match_class :: "'p module \<Rightarrow> targets \<Rightarrow> bool \<times> int" where
  "match_class layer targets = match_class_from layer 0 (as_list targets)"

text \<open>
  \<^verbatim>\<open>get_default_params\<close>: for every layer the first parameter of \<^verbatim>\<open>named_parameters()\<close>
  whose name is \<^verbatim>\<open>"weight"\<close> (the inner loop breaks there).
\<close>

definition get_default_params :: "(string \<times> 'p layer) list \<Rightarrow> (string \<times> 'p) list" where
  "get_default_params layers =
     fold (\<lambda>(name, layer) params.
        case find (\<lambda>(param_name, param). param_name = ''weight'') (named_parameters (snd layer)) of
          None \<Rightarrow> params
        | Some (param_name, param) \<Rightarrow> AList.update name param params) layers []"

text \<open>A dictionary filled by \<^verbatim>\<open>d[name] = layer\<close> for the items of a list, in order.\<close>

definition dict_of :: "(string \<times> 'a) list \<Rightarrow> (string \<times> 'a) list" where
  "dict_of items = fold (\<lambda>(name, v) d. AList.update name v d) items []"

definition get_terminal_layers :: "'p module \<Rightarrow> (string \<times> 'p layer) list" where
  "get_terminal_layers module =
     dict_of (filter (\<lambda>(name, layer). \<not> length (named_modules (snd layer)) > 1) (named_modules module))"

definition get_prunable_layers :: "env \<Rightarrow> 'p module \<Rightarrow> (string \<times> 'p layer) list" where
  "get_prunable_layers E module =
     dict_of (filter (\<lambda>(name, layer).
        isinstance (snd layer) Linear
        \<or> isinstance (snd layer) ConvNd
        \<or> (has_QATLinear E \<and> isinstance (snd layer) QATLinear)
        \<or> (has_QATConv2d E \<and> isinstance (snd layer) QATConv2d)
        \<or> (has_QATConv3d E \<and> isinstance (snd layer) QATConv3d)
        \<or> (has_TransformerConv1D E \<and> isinstance (snd layer) TransformerConv1D))
       (named_modules module))"

definition get_quantizable_layers :: "env \<Rightarrow> 'p module \<Rightarrow> error + (string \<times> 'p layer) list" where
  "get_quantizable_layers E module =
     (if \<not> has_QATLinear E then Inl ImportError
      else Inr (dict_of (filter (\<lambda>(name, layer).
        isinstance (snd layer) Linear \<or> isinstance (snd layer) ConvNd) (named_modules module))))"

text \<open>
  The body of the loop of \<^verbatim>\<open>match_layers_params\<close>. The state is the pair of
  \<^verbatim>\<open>targets_found\<close> and \<^verbatim>\<open>resolved\<close>. First the node itself (name match when
  \<^verbatim>\<open>params\<close> is false, else class match), then each of its parameters.
\<close>

definition visit_layer ::
  "env \<Rightarrow> string list \<Rightarrow> bool \<Rightarrow> string \<Rightarrow> 'p layer \<Rightarrow>
   bool list \<times> (string \<times> 'p entity) list \<Rightarrow> bool list \<times> (string \<times> 'p entity) list" where
  "visit_layer E targets params name layer st =
     (case st of (targets_found, resolved) \<Rightarrow>
        (case match_targets E name (Lst targets) of (match, match_index) \<Rightarrow>
           if match \<and> \<not> params then
             (targets_found[nat match_index := True], AList.update name (Layer layer) resolved)
           else
             (case match_class (snd layer) (Lst targets) of (match, match_index) \<Rightarrow>
                if match then
                  (targets_found[nat match_index := True], AList.update name (Layer layer) resolved)
                else (targets_found, resolved))))"

definition visit_param ::
  "env \<Rightarrow> string list \<Rightarrow> bool \<Rightarrow> string \<Rightarrow> 'p layer \<Rightarrow> string \<times> 'p \<Rightarrow>
   bool list \<times> (string \<times> 'p entity) list \<Rightarrow> bool list \<times> (string \<times> 'p entity) list" where
  "visit_param E targets params name layer np st =
     (case st of (targets_found, resolved) \<Rightarrow>
      (case np of (param_name, param) \<Rightarrow>
        if CHR ''.'' \<in> set param_name then (targets_found, resolved)
        else
          (case match_targets E (name @ ''.'' @ param_name) (Lst targets) of
             (param_match, param_match_index) \<Rightarrow>
               if param_match then
                 (targets_found[nat param_match_index := True],
                  AList.update name (if \<not> params then Layer layer else Param param) resolved)
               else (targets_found, resolved))))"

definition visit_module ::
  "env \<Rightarrow> string list \<Rightarrow> bool \<Rightarrow> string \<times> 'p layer \<Rightarrow>
   bool list \<times> (string \<times> 'p entity) list \<Rightarrow> bool list \<times> (string \<times> 'p entity) list" where
  "visit_module E targets params nl st =
     (case nl of (raw_name, layer) \<Rightarrow>
        (let name = fix_fsdp_module_name E raw_name in
         fold (visit_param E targets params name layer) (named_parameters (snd layer))
           (visit_layer E targets params name layer st)))"

definition walk ::
  "env \<Rightarrow> string list \<Rightarrow> 'p module \<Rightarrow> bool \<Rightarrow> bool list \<times> (string \<times> 'p entity) list" where
  "walk E targets module params =
     fold (visit_module E targets params) (named_modules module)
       (replicate (length targets) False, [])"

text \<open>\<^verbatim>\<open>return values if not params else get_default_params(values)\<close>\<close>

definition values_or_params :: "bool \<Rightarrow> (string \<times> 'p layer) list \<Rightarrow> (string \<times> 'p entity) list" where
  "values_or_params params values =
     (if \<not> params then map (\<lambda>(name, layer). (name, Layer layer)) values
      else map (\<lambda>(name, param). (name, Param param)) (get_default_params values))"

definition match_layers_params ::
  "env \<Rightarrow> targets \<Rightarrow> 'p module \<Rightarrow> bool \<Rightarrow> error + (string \<times> 'p entity) list" where
  "match_layers_params E targets module params =
     (if targets = Str ALL_TARGET then
        Inr (values_or_params params (get_terminal_layers module))
      else if targets = Str ALL_PRUNABLE_TARGET then
        Inr (values_or_params params (get_prunable_layers E module))
      else if targets = Str ALL_QUANTIZABLE_TARGET then
        (case get_quantizable_layers E module of
           Inl e \<Rightarrow> Inl e
         | Inr values \<Rightarrow> Inr (values_or_params params values))
      else
        (case walk E (as_list targets) module params of (targets_found, resolved) \<Rightarrow>
           (let missed = map snd (filter (\<lambda>(found, target). \<not> found)
                                    (zip targets_found (as_list targets)))
            in if length missed > 0 then Inl (TargetsNotFound missed) else Inr resolved)))"

text \<open>\<^verbatim>\<open>isinstance(layer, InternalModule)\<close> on a value of the result mapping.\<close>

fun is_internal :: "'p entity \<Rightarrow> bool" where
  "is_internal (Layer l) = isinstance (snd l) InternalModule"
| "is_internal (Param p) = False"

definition get_layers ::
  "env \<Rightarrow> targets \<Rightarrow> 'p module \<Rightarrow> bool \<Rightarrow> error + (string \<times> 'p entity) list" where
  "get_layers E targets module exclude_internal_modules =
     (case match_layers_params E targets module False of
        Inl e \<Rightarrow> Inl e
      | Inr layer_dict \<Rightarrow>
          Inr (if exclude_internal_modules
               then filter (\<lambda>(name, layer). \<not> is_internal layer) layer_dict
               else layer_dict))"

definition get_layer :: "env \<Rightarrow> string \<Rightarrow> 'p module \<Rightarrow> error + string \<times> 'p entity" where
  "get_layer E target module =
     (case get_layers E (Str target) module False of
        Inl e \<Rightarrow> Inl e
      | Inr layers \<Rightarrow>
          (case layers of
             [item] \<Rightarrow> Inr item
           | _ \<Rightarrow> Inl (ExpectedOne target (length layers))))"

definition get_params ::
  "env \<Rightarrow> targets \<Rightarrow> 'p module \<Rightarrow> error + (string \<times> 'p entity) list" where
  "get_params E targets module = match_layers_params E targets module True"

text \<open>\<^verbatim>\<open>target.split(".")\<close> and \<^verbatim>\<open>".".join(...)\<close>.\<close>

fun split_dot :: "string \<Rightarrow> string list" where
  "split_dot [] = [[]]"
| "split_dot (c # cs) =
     (if c = CHR ''.'' then [] # split_dot cs
      else (case split_dot cs of [] \<Rightarrow> [[c]] | s # ss \<Rightarrow> (c # s) # ss))"

fun join_dot :: "string list \<Rightarrow> string" where
  "join_dot [] = []"
| "join_dot [s] = s"
| "join_dot (s # t # ss) = s @ ''.'' @ join_dot (t # ss)"

text \<open>
  \<^verbatim>\<open>getattr(parent_layer, name)\<close> on a module looks among its parameters, then among its
  children. \<^verbatim>\<open>setattr(parent_layer, name, layer)\<close> with a module value raises a
  \<^verbatim>\<open>TypeError\<close> when the name is a registered parameter, and otherwise stores the child
  under the name (an existing child keeps its position).
\<close>

datatype 'p attr = AttrParam 'p | AttrModule "'p module"

definition getattr :: "'p module \<Rightarrow> string \<Rightarrow> error + 'p attr" where
  "getattr m name =
     (case map_of (parameters m) name of
        Some p \<Rightarrow> Inr (AttrParam p)
      | None \<Rightarrow>
         (case map_of (modules m) name of
            Some child \<Rightarrow> Inr (AttrModule child)
          | None \<Rightarrow> Inl (AttributeError name)))"

fun setattr :: "string \<Rightarrow> 'p module \<Rightarrow> 'p module \<Rightarrow> error + 'p module" where
  "setattr name v (Module c b ps cs) =
     (case map_of ps name of
        Some p \<Rightarrow> Inl (TypeError name)
      | None \<Rightarrow> Inr (Module c b ps (AList.update name v cs)))"

text \<open>
  Modelled from the spec: \<^verbatim>\<open>maybe_get_wrapped\<close> is not in the source file; the
  specification takes the parent of a target without a dot to be the root.
\<close>

definition maybe_get_wrapped :: "'p module \<Rightarrow> 'p layer" where
  "maybe_get_wrapped module = ([], module)"

definition parent_layer_of :: "env \<Rightarrow> string \<Rightarrow> 'p module \<Rightarrow> error + 'p layer" where
  "parent_layer_of E target module =
     (let parent_target = join_dot (butlast (split_dot target)) in
      if parent_target \<noteq> '''' then
        (case get_layer E parent_target module of
           Inl e \<Rightarrow> Inl e
         | Inr (name, Layer l) \<Rightarrow> Inr l
         | Inr (name, Param p) \<Rightarrow> Inl (AttributeError (last (split_dot target))))
      else Inr (maybe_get_wrapped module))"

text \<open>
  \<^verbatim>\<open>set_layer\<close> returns the displaced attribute; the tree after the call is returned
  with it.
\<close>

definition set_layer ::
  "env \<Rightarrow> string \<Rightarrow> 'p module \<Rightarrow> 'p module \<Rightarrow> error + 'p attr \<times> 'p module" where
  "set_layer E target layer module =
     (case parent_layer_of E target module of
        Inl e \<Rightarrow> Inl e
      | Inr parent_layer \<Rightarrow>
          (case getattr (snd parent_layer) (last (split_dot target)) of
             Inl e \<Rightarrow> Inl e
           | Inr old_layer \<Rightarrow>
               (case setattr (last (split_dot target)) layer (snd parent_layer) of
                  Inl e \<Rightarrow> Inl e
                | Inr changed \<Rightarrow>
                    Inr (old_layer, update_at (fst parent_layer) (\<lambda>_. changed) module))))"

text \<open>
  \<^verbatim>\<open>ModelParameterizedLayer\<close> is declared in \<^verbatim>\<open>llmcompressor.core\<close>: a record of
  the four fields the specification lists.
\<close>

record 'p ModelParameterizedLayer =
  layer_name :: string
  layer :: "'p entity"
  param_name :: string
  param :: "'p entity"

text \<open>The loop of \<^verbatim>\<open>get_layers_params\<close>; \<^verbatim>\<open>layers[name]\<close> raises on a missing key.\<close>

fun parameterize ::
  "(string \<times> 'p entity) list \<Rightarrow> (string \<times> 'p entity) list \<Rightarrow>
   (string \<times> 'p ModelParameterizedLayer) list \<Rightarrow>
   error + (string \<times> 'p ModelParameterizedLayer) list" where
  "parameterize layers [] parameterized_layers = Inr parameterized_layers"
| "parameterize layers ((name, p) # rest) parameterized_layers =
     (case map_of layers name of
        None \<Rightarrow> Inl (KeyError name)
      | Some l \<Rightarrow>
          parameterize layers rest
            (AList.update name
               \<lparr>layer_name = name, layer = l, param_name = name, param = p\<rparr>
               parameterized_layers))"

definition get_layers_params ::
  "env \<Rightarrow> targets \<Rightarrow> 'p module \<Rightarrow> error + (string \<times> 'p ModelParameterizedLayer) list" where
  "get_layers_params E targets module =
     (case get_params E targets module of
        Inl e \<Rightarrow> Inl e
      | Inr params \<Rightarrow>
          (case get_layers E targets module False of
             Inl e \<Rightarrow> Inl e
           | Inr layers \<Rightarrow> parameterize layers params []))"

text \<open>
  The loop of \<^verbatim>\<open>get_matching_layer\<close>: the state is \<^verbatim>\<open>largest_substring\<close> and
  \<^verbatim>\<open>match\<close>.
\<close>

definition consider_match ::
  "env \<Rightarrow> string \<Rightarrow> string \<times> 'a \<Rightarrow> nat \<times> (string \<times> 'a) option \<Rightarrow> nat \<times> (string \<times> 'a) option" where
  "consider_match E name_to_match item st =
     (case st of (largest_substring, match) \<Rightarrow>
        (let match_length = find_longest_match E (fst item) name_to_match in
         if match_length > largest_substring then (match_length, Some item)
         else (largest_substring, match)))"

definition best_match :: "env \<Rightarrow> string \<Rightarrow> (string \<times> 'a) list \<Rightarrow> (string \<times> 'a) option" where
  "best_match E name_to_match potential_matches =
     snd (fold (consider_match E name_to_match) potential_matches (0, None))"

definition get_matching_layer ::
  "env \<Rightarrow> string \<Rightarrow> string \<Rightarrow> 'p module \<Rightarrow> error + (string \<times> 'p entity) option" where
  "get_matching_layer E target name_to_match module =
     (case get_layers E (Str target) module False of
        Inl e \<Rightarrow> Inl e
      | Inr potential_matches \<Rightarrow> Inr (best_match E name_to_match potential_matches))"

section \<open>Specification-level notions\<close>

text \<open>
  When a single target matches a name, in the words of the specification: a target with
  the prefix \<^verbatim>\<open>re:\<close> matches when its remainder, as a regular expression, matches at the
  start of the name; any other target matches when it is equal to the name.
\<close>

definition target_matches :: "env \<Rightarrow> string \<Rightarrow> string \<Rightarrow> bool" where
  "target_matches E name target =
     (if take 3 target = ''re:'' then re_match E (drop 3 target) name else name = target)"


text \<open>
  When the visit of one node marks target index \<open>i\<close> as found (by the node's name, by its
  class, or by one of the parameters it owns directly), and when some node of the tree
  does.
\<close>

definition marked_at :: "env \<Rightarrow> string list \<Rightarrow> bool \<Rightarrow> string \<times> 'p layer \<Rightarrow> nat \<Rightarrow> bool" where
  "marked_at E ts params nl i =
     (case nl of (raw_name, l) \<Rightarrow>
        (let name = fix_fsdp_module_name E raw_name in
           (\<not> params \<and> match_targets E name (Lst ts) = (True, int i))
         \<or> ((params \<or> \<not> fst (match_targets E name (Lst ts)))
              \<and> match_class (snd l) (Lst ts) = (True, int i))
         \<or> list_ex (\<lambda>(param_name, p). CHR ''.'' \<notin> set param_name
               \<and> match_targets E (name @ ''.'' @ param_name) (Lst ts) = (True, int i))
             (named_parameters (snd l))))"

definition target_found :: "env \<Rightarrow> string list \<Rightarrow> 'p module \<Rightarrow> bool \<Rightarrow> nat \<Rightarrow> bool" where
  "target_found E ts module params i =
     list_ex (\<lambda>nl. marked_at E ts params nl i) (named_modules module)"


text \<open>
  The same in the words of the specification's matching relation. A name, a class or a
  parameter name is claimed by the first target of the list that matches it and by no
  other; a target is claimed when it is that first target for the name of some node (and
  \<^verbatim>\<open>params\<close> is false), for its class (when the name recorded nothing) or for one of the
  parameters the node owns. A target is matched when it matches one of these at all,
  first or not.
\<close>

definition first_matching :: "(string \<Rightarrow> bool) \<Rightarrow> string list \<Rightarrow> nat \<Rightarrow> bool" where
  "first_matching P ts i = (i < length ts \<and> P (ts ! i) \<and> list_all (\<lambda>j. \<not> P (ts ! j)) [0..<i])"

definition claimed_at :: "env \<Rightarrow> string list \<Rightarrow> bool \<Rightarrow> string \<times> 'p layer \<Rightarrow> nat \<Rightarrow> bool" where
  "claimed_at E ts params nl i =
     (case nl of (raw_name, l) \<Rightarrow>
        (let name = fix_fsdp_module_name E raw_name in
           (\<not> params \<and> first_matching (target_matches E name) ts i)
         \<or> ((params \<or> \<not> list_ex (target_matches E name) ts)
              \<and> first_matching (\<lambda>t. class_name (snd l) = t) ts i)
         \<or> list_ex (\<lambda>(pn, p). CHR ''.'' \<notin> set pn
               \<and> first_matching (target_matches E (name @ ''.'' @ pn)) ts i)
             (named_parameters (snd l))))"

definition claimed :: "env \<Rightarrow> string list \<Rightarrow> 'p module \<Rightarrow> bool \<Rightarrow> nat \<Rightarrow> bool" where
  "claimed E ts module params i =
     list_ex (\<lambda>nl. claimed_at E ts params nl i) (named_modules module)"

definition matched_at :: "env \<Rightarrow> string list \<Rightarrow> bool \<Rightarrow> string \<times> 'p layer \<Rightarrow> nat \<Rightarrow> bool" where
  "matched_at E ts params nl i =
     (case nl of (raw_name, l) \<Rightarrow>
        (let name = fix_fsdp_module_name E raw_name in
           (\<not> params \<and> target_matches E name (ts ! i))
         \<or> ((params \<or> \<not> list_ex (target_matches E name) ts) \<and> class_name (snd l) = ts ! i)
         \<or> list_ex (\<lambda>(pn, p). CHR ''.'' \<notin> set pn
               \<and> target_matches E (name @ ''.'' @ pn) (ts ! i))
             (named_parameters (snd l))))"

definition matched :: "env \<Rightarrow> string list \<Rightarrow> 'p module \<Rightarrow> bool \<Rightarrow> nat \<Rightarrow> bool" where
  "matched E ts module params i =
     list_ex (\<lambda>nl. matched_at E ts params nl i) (named_modules module)"

section \<open>A concrete environment and a concrete model\<close>

text \<open>
  \<^verbatim>\<open>re.match\<close> on the patterns built from literal characters, the dot (any character)
  and a starred character: a match at the start of the string, nothing asked of its end.
  The length of the longest common contiguous substring is what \<^verbatim>\<open>find_longest_match\<close>
  reports on short names. The environment below has no sharding wrapper (names are left
  as they are) and every optional class.
\<close>

fun re_simple :: "string \<Rightarrow> string \<Rightarrow> bool" where
  "re_simple [] s = True"
| "re_simple [c] [] = False"
| "re_simple [c] (t # ts) = (c = CHR ''.'' \<or> c = t)"
| "re_simple (c # d # rest) [] = (d = CHR ''*'' \<and> re_simple rest [])"
| "re_simple (c # d # rest) (t # ts) =
     (if d = CHR ''*'' then
        re_simple rest (t # ts) \<or> ((c = CHR ''.'' \<or> c = t) \<and> re_simple (c # d # rest) ts)
      else (c = CHR ''.'' \<or> c = t) \<and> re_simple (d # rest) ts)"

fun common_prefix_length :: "string \<Rightarrow> string \<Rightarrow> nat" where
  "common_prefix_length (x # xs) (y # ys) = (if x = y then Suc (common_prefix_length xs ys) else 0)"
| "common_prefix_length xs ys = 0"

fun tails :: "string \<Rightarrow> string list" where
  "tails [] = [[]]"
| "tails (x # xs) = (x # xs) # tails xs"

definition longest_common_substring :: "string \<Rightarrow> string \<Rightarrow> nat" where
  "longest_common_substring a b =
     fold max (concat (map (\<lambda>s. map (common_prefix_length s) (tails b)) (tails a))) 0"

definition host_env :: env where
  "host_env = \<lparr>re_match = re_simple, fix_fsdp_module_name = (\<lambda>name. name),
     find_longest_match = longest_common_substring,
     has_QATLinear = True, has_QATConv2d = True, has_QATConv3d = True,
     has_TransformerConv1D = True\<rparr>"

definition example_model :: "nat module" where
  "example_model =
     Module ''Net'' [] []
       [(''fc1'', Module ''Linear'' [Linear] [(''weight'', 1), (''bias'', 2)] []),
        (''act'', Module ''ReLU'' [] [] []),
        (''block'', Module ''Block'' [] [(''scale'', 3)]
           [(''conv'', Module ''Conv2d'' [ConvNd] [(''weight'', 4)] []),
            (''norm'', Module ''LayerNorm'' [] [(''bias'', 5)] [])])]"

definition attention_model :: "nat module" where
  "attention_model =
     Module ''Model'' [] []
       [(''layers'', Module ''ModuleList'' [] []
          [(''3'', Module ''Block'' [] []
              [(''q_proj'', Module ''Linear'' [Linear] [(''weight'', 1)] []),
               (''k_proj'', Module ''Linear'' [Linear] [(''weight'', 2)] [])]),
           (''7'', Module ''Block'' [] []
              [(''q_proj'', Module ''Linear'' [Linear] [(''weight'', 3)] []),
               (''k_proj'', Module ''Linear'' [Linear] [(''weight'', 4)] [])])])]"

text \<open>A model whose attribute \<^verbatim>\<open>Encoder\<close> has the name that a class may have too.\<close>

definition encoder_model :: "nat module" where
  "encoder_model =
     Module ''Model'' [] []
       [(''Encoder'', Module ''TransformerEncoder'' [] []
          [(''layer'', Module ''Layer'' [Linear] [(''weight'', 1)] [])]),
        (''head'', Module ''Head'' [Linear] [(''weight'', 2)] [])]"

section \<open>Properties\<close>

subsection \<open>Target matching\<close>

lemma match_targets_from_first:
  "(\<exists>i < length ts. target_matches E name (ts ! i) \<and> (\<forall>j < i. \<not> target_matches E name (ts ! j))
        \<and> match_targets_from E name k ts = (True, k + int i))
   \<or> ((\<forall>t \<in> set ts. \<not> target_matches E name t) \<and> match_targets_from E name k ts = (False, -1))"
proof (induction ts arbitrary: k)
  case Nil
  show ?case by simp
next
  case (Cons t ts)
  show ?case
  proof (cases "target_matches E name t")
    case True
    then have "match_targets_from E name k (t # ts) = (True, k + int 0)"
      by (cases "take 3 t = ''re:''") (simp_all add: target_matches_def)
    with True show ?thesis by (intro disjI1 exI[of _ 0]) simp
  next
    case False
    then have step: "match_targets_from E name k (t # ts) = match_targets_from E name (k + 1) ts"
      by (cases "take 3 t = ''re:''") (simp_all add: target_matches_def)
    from Cons.IH[of "k + 1"] show ?thesis
    proof
      assume "\<exists>i<length ts. target_matches E name (ts ! i) \<and> (\<forall>j<i. \<not> target_matches E name (ts ! j))
        \<and> match_targets_from E name (k + 1) ts = (True, k + 1 + int i)"
      then obtain i where i: "i < length ts" "target_matches E name (ts ! i)"
        "\<forall>j<i. \<not> target_matches E name (ts ! j)"
        "match_targets_from E name (k + 1) ts = (True, k + 1 + int i)" by blast
      have "\<forall>j<Suc i. \<not> target_matches E name ((t # ts) ! j)"
        using False i(3) by (auto simp: less_Suc_eq_0_disj)
      with i step show ?thesis
        by (intro disjI1 exI[of _ "Suc i"]) simp
    next
      assume "(\<forall>t\<in>set ts. \<not> target_matches E name t) \<and> match_targets_from E name (k + 1) ts = (False, - 1)"
      with False step show ?thesis by simp
    qed
  qed
qed

lemma match_class_from_first:
  "(\<exists>i < length ts. class_name l = ts ! i \<and> (\<forall>j < i. class_name l \<noteq> ts ! j)
        \<and> match_class_from l k ts = (True, k + int i))
   \<or> (class_name l \<notin> set ts \<and> match_class_from l k ts = (False, -1))"
proof (induction ts arbitrary: k)
  case Nil
  show ?case by simp
next
  case (Cons t ts)
  show ?case
  proof (cases "class_name l = t")
    case True
    then show ?thesis by (intro disjI1 exI[of _ 0]) simp
  next
    case False
    then have step: "match_class_from l k (t # ts) = match_class_from l (k + 1) ts"
      by simp
    from Cons.IH[of "k + 1"] show ?thesis
    proof
      assume "\<exists>i<length ts. class_name l = ts ! i \<and> (\<forall>j<i. class_name l \<noteq> ts ! j)
        \<and> match_class_from l (k + 1) ts = (True, k + 1 + int i)"
      then obtain i where i: "i < length ts" "class_name l = ts ! i"
        "\<forall>j<i. class_name l \<noteq> ts ! j"
        "match_class_from l (k + 1) ts = (True, k + 1 + int i)" by blast
      have "\<forall>j<Suc i. class_name l \<noteq> (t # ts) ! j"
        using False i(3) by (auto simp: less_Suc_eq_0_disj)
      with i step show ?thesis
        by (intro disjI1 exI[of _ "Suc i"]) simp
    next
      assume "class_name l \<notin> set ts \<and> match_class_from l (k + 1) ts = (False, - 1)"
      with False step show ?thesis by simp
    qed
  qed
qed

text \<open>
  C3. \<^verbatim>\<open>match_targets\<close> goes through the targets in order and returns
  \<^verbatim>\<open>(True, i)\<close> for the smallest index \<open>i\<close> whose target matches the name (a \<^verbatim>\<open>re:\<close>
  target by its remainder as a regular expression matched at the start of the name, any
  other target by equality), and \<^verbatim>\<open>(False, -1)\<close> when no target matches. A single string
  behaves as the list of that one string.
\<close>

theorem match_targets_first_match:
  "((\<exists>i < length (as_list targets).
        target_matches E name (as_list targets ! i)
        \<and> (\<forall>j < i. \<not> target_matches E name (as_list targets ! j))
        \<and> match_targets E name targets = (True, int i))
    \<or> ((\<forall>t \<in> set (as_list targets). \<not> target_matches E name t)
        \<and> match_targets E name targets = (False, -1)))
   \<and> match_targets E name (Str s) = match_targets E name (Lst [s])"
  using match_targets_from_first[of "as_list targets" E name 0]
  by (simp add: match_targets_def)

subsection \<open>The traversal of the resolver\<close>

lemma match_targets_index:
  assumes "match_targets E name (Lst ts) = (True, k)"
  shows "\<exists>i < length ts. k = int i"
  using match_targets_from_first[of ts E name 0] assms
  by (auto simp: match_targets_def)

lemma match_class_index:
  assumes "match_class l (Lst ts) = (True, k)"
  shows "\<exists>i < length ts. k = int i"
  using match_class_from_first[of ts l 0] assms
  by (auto simp: match_class_def)

lemma fold_flags:
  assumes step: "\<And>x tf res. length tf = n \<Longrightarrow>
            length (fst (f x (tf, res))) = n \<and> (\<forall>i<n. fst (f x (tf, res)) ! i = (tf ! i \<or> M x i))"
    and len: "length tf = n"
  shows "length (fst (fold f xs (tf, res))) = n
         \<and> (\<forall>i<n. fst (fold f xs (tf, res)) ! i = (tf ! i \<or> (\<exists>x\<in>set xs. M x i)))"
  using len
proof (induction xs arbitrary: tf res)
  case Nil
  then show ?case by simp
next
  case (Cons x xs)
  obtain tf' res' where st: "f x (tf, res) = (tf', res')" by (cases "f x (tf, res)")
  from step[OF Cons.prems, of x res] st
  have l': "length tf' = n" and v': "\<forall>i<n. tf' ! i = (tf ! i \<or> M x i)" by simp_all
  from Cons.IH[OF l', of res'] st v' show ?case by auto
qed

lemma visit_layer_flags:
  assumes "length tf = length ts"
  shows "length (fst (visit_layer E ts params name l (tf, res))) = length ts
         \<and> (\<forall>i<length ts. fst (visit_layer E ts params name l (tf, res)) ! i =
              (tf ! i
               \<or> (\<not> params \<and> match_targets E name (Lst ts) = (True, int i))
               \<or> ((params \<or> \<not> fst (match_targets E name (Lst ts)))
                    \<and> match_class (snd l) (Lst ts) = (True, int i))))"
proof -
  obtain b k where mt: "match_targets E name (Lst ts) = (b, k)"
    by (cases "match_targets E name (Lst ts)")
  obtain c j where mc: "match_class (snd l) (Lst ts) = (c, j)"
    by (cases "match_class (snd l) (Lst ts)")
  show ?thesis
  proof (cases "b \<and> \<not> params")
    case True
    with mt have "match_targets E name (Lst ts) = (True, k)" by simp
    then obtain i0 where "i0 < length ts" "k = int i0"
      using match_targets_index by blast
    with True mt assms show ?thesis
      by (auto simp: visit_layer_def nth_list_update)
  next
    case False
    show ?thesis
    proof (cases c)
      case True
      with mc have "match_class (snd l) (Lst ts) = (True, j)" by simp
      then obtain j0 where "j0 < length ts" "j = int j0"
        using match_class_index by blast
      with True False mt mc assms show ?thesis
        by (auto simp: visit_layer_def nth_list_update)
    next
      case c: False
      with False mt mc assms show ?thesis
        by (auto simp: visit_layer_def)
    qed
  qed
qed

lemma visit_param_flags:
  assumes "length tf = length ts"
  shows "length (fst (visit_param E ts params name l np (tf, res))) = length ts
         \<and> (\<forall>i<length ts. fst (visit_param E ts params name l np (tf, res)) ! i =
              (tf ! i
               \<or> (CHR ''.'' \<notin> set (fst np)
                   \<and> match_targets E (name @ ''.'' @ fst np) (Lst ts) = (True, int i))))"
proof -
  obtain pn p where np: "np = (pn, p)" by (cases np)
  obtain b k where mt: "match_targets E (name @ ''.'' @ pn) (Lst ts) = (b, k)"
    by (cases "match_targets E (name @ ''.'' @ pn) (Lst ts)")
  show ?thesis
  proof (cases "CHR ''.'' \<notin> set pn \<and> b")
    case True
    with mt have "match_targets E (name @ ''.'' @ pn) (Lst ts) = (True, k)" by simp
    then obtain i0 where "i0 < length ts" "k = int i0"
      using match_targets_index by blast
    with True mt np assms show ?thesis
      by (auto simp: visit_param_def nth_list_update)
  next
    case False
    with mt np assms show ?thesis
      by (auto simp: visit_param_def)
  qed
qed

lemma visit_module_flags:
  assumes "length tf = length ts"
  shows "length (fst (visit_module E ts params nl (tf, res))) = length ts
         \<and> (\<forall>i<length ts. fst (visit_module E ts params nl (tf, res)) ! i =
              (tf ! i \<or> marked_at E ts params nl i))"
proof -
  obtain raw l where nl: "nl = (raw, l)" by (cases nl)
  define name where "name = fix_fsdp_module_name E raw"
  obtain tf1 res1 where v1: "visit_layer E ts params name l (tf, res) = (tf1, res1)"
    by (cases "visit_layer E ts params name l (tf, res)")
  from visit_layer_flags[OF assms, of E params name l res] v1
  have l1: "length tf1 = length ts"
    and f1: "\<forall>i<length ts. tf1 ! i =
              (tf ! i
               \<or> (\<not> params \<and> match_targets E name (Lst ts) = (True, int i))
               \<or> ((params \<or> \<not> fst (match_targets E name (Lst ts)))
                    \<and> match_class (snd l) (Lst ts) = (True, int i)))" by simp_all
  have f2: "length (fst (fold (visit_param E ts params name l) (named_parameters (snd l)) (tf1, res1))) = length ts
         \<and> (\<forall>i<length ts. fst (fold (visit_param E ts params name l) (named_parameters (snd l)) (tf1, res1)) ! i =
              (tf1 ! i \<or> (\<exists>np\<in>set (named_parameters (snd l)). CHR ''.'' \<notin> set (fst np)
                   \<and> match_targets E (name @ ''.'' @ fst np) (Lst ts) = (True, int i))))"
    by (rule fold_flags[OF _ l1]) (rule visit_param_flags)
  have vm: "visit_module E ts params nl (tf, res) =
      fold (visit_param E ts params name l) (named_parameters (snd l)) (tf1, res1)"
    using v1 by (simp add: visit_module_def nl name_def Let_def)
  have ma: "marked_at E ts params nl i =
      ((\<not> params \<and> match_targets E name (Lst ts) = (True, int i))
               \<or> ((params \<or> \<not> fst (match_targets E name (Lst ts)))
                    \<and> match_class (snd l) (Lst ts) = (True, int i))
       \<or> (\<exists>np\<in>set (named_parameters (snd l)). CHR ''.'' \<notin> set (fst np)
                   \<and> match_targets E (name @ ''.'' @ fst np) (Lst ts) = (True, int i)))" for i
    by (auto simp: marked_at_def nl name_def list_ex_iff Let_def split_def)
  from f2 f1 show ?thesis unfolding vm ma by auto
qed

lemma walk_flags:
  "length (fst (walk E ts module params)) = length ts
   \<and> (\<forall>i<length ts. fst (walk E ts module params) ! i = target_found E ts module params i)"
proof -
  have "length (fst (fold (visit_module E ts params) (named_modules module) (replicate (length ts) False, []))) = length ts
     \<and> (\<forall>i<length ts. fst (fold (visit_module E ts params) (named_modules module) (replicate (length ts) False, [])) ! i =
          (replicate (length ts) False ! i \<or> (\<exists>nl\<in>set (named_modules module). marked_at E ts params nl i)))"
    by (rule fold_flags) (rule visit_module_flags, simp_all)
  then show ?thesis
    by (simp add: walk_def target_found_def list_ex_iff)
qed

lemma missed_eq:
  assumes "length tf = length ts"
  shows "map snd (filter (\<lambda>(found, target). \<not> found) (zip tf ts)) =
         map (\<lambda>i. ts ! i) (filter (\<lambda>i. \<not> tf ! i) [0..<length ts])"
proof -
  have "zip tf ts = map (\<lambda>i. (tf ! i, ts ! i)) [0..<length ts]"
    using assms by (intro nth_equalityI) simp_all
  then show ?thesis by (simp add: filter_map comp_def)
qed

lemma first_matching_unique:
  "first_matching P ts i \<Longrightarrow> first_matching P ts j \<Longrightarrow> i = j"
  by (auto simp: first_matching_def list_all_iff intro: linorder_cases[of i j])

lemma match_targets_first_matching:
  "(match_targets E name (Lst ts) = (True, int i)) = first_matching (target_matches E name) ts i"
proof -
  from match_targets_from_first[of ts E name 0]
  consider k where "k < length ts" "target_matches E name (ts ! k)"
      "\<forall>j<k. \<not> target_matches E name (ts ! j)" "match_targets E name (Lst ts) = (True, int k)"
    | "\<forall>t\<in>set ts. \<not> target_matches E name t" "match_targets E name (Lst ts) = (False, -1)"
    by (auto simp: match_targets_def)
  then show ?thesis
  proof cases
    case 1
    then have fk: "first_matching (target_matches E name) ts k"
      by (simp add: first_matching_def list_all_iff)
    show ?thesis
    proof
      assume "match_targets E name (Lst ts) = (True, int i)"
      with 1(4) have "i = k" by simp
      with fk show "first_matching (target_matches E name) ts i" by simp
    next
      assume "first_matching (target_matches E name) ts i"
      from first_matching_unique[OF this fk] 1(4)
      show "match_targets E name (Lst ts) = (True, int i)" by simp
    qed
  next
    case 2
    then show ?thesis by (auto simp: first_matching_def)
  qed
qed

lemma match_targets_any:
  "fst (match_targets E name (Lst ts)) = list_ex (target_matches E name) ts"
  using match_targets_from_first[of ts E name 0]
  by (auto simp: match_targets_def list_ex_iff intro: nth_mem)

lemma match_class_first_matching:
  "(match_class l (Lst ts) = (True, int i)) = first_matching (\<lambda>t. class_name l = t) ts i"
proof -
  from match_class_from_first[of ts l 0]
  consider k where "k < length ts" "class_name l = ts ! k"
      "\<forall>j<k. class_name l \<noteq> ts ! j" "match_class l (Lst ts) = (True, int k)"
    | "class_name l \<notin> set ts" "match_class l (Lst ts) = (False, -1)"
    by (auto simp: match_class_def)
  then show ?thesis
  proof cases
    case 1
    then have fk: "first_matching (\<lambda>t. class_name l = t) ts k"
      by (simp add: first_matching_def list_all_iff)
    show ?thesis
    proof
      assume "match_class l (Lst ts) = (True, int i)"
      with 1(4) have "i = k" by simp
      with fk show "first_matching (\<lambda>t. class_name l = t) ts i" by simp
    next
      assume "first_matching (\<lambda>t. class_name l = t) ts i"
      from first_matching_unique[OF this fk] 1(4)
      show "match_class l (Lst ts) = (True, int i)" by simp
    qed
  next
    case 2
    then show ?thesis by (auto simp: first_matching_def)
  qed
qed

lemma marked_at_claimed_at: "marked_at E ts params nl i = claimed_at E ts params nl i"
  by (simp add: marked_at_def claimed_at_def match_targets_first_matching
      match_targets_any match_class_first_matching)

lemma target_found_claimed: "target_found E ts module params i = claimed E ts module params i"
  by (simp add: target_found_def claimed_def marked_at_claimed_at)

lemma claimed_matched:
  assumes "claimed E ts module params i"
  shows "matched E ts module params i"
proof -
  have "matched_at E ts params nl i" if "claimed_at E ts params nl i" for nl :: "string \<times> 'a layer"
  proof -
    obtain raw l where nl: "nl = (raw, l)" by (cases nl)
    from that show ?thesis
      unfolding claimed_at_def matched_at_def nl first_matching_def Let_def list_ex_iff prod.case
      by blast
  qed
  with assms show ?thesis unfolding claimed_def matched_def list_ex_iff by blast
qed

text \<open>
  C1, as the code has it. For targets that are none of the three sentinels: when the
  traversal leaves some target index unmarked, \<^verbatim>\<open>match_layers_params\<close> raises the error
  that lists, in the order of the targets, exactly the targets that are not claimed: those
  that are not the first matching target of any node name (with \<^verbatim>\<open>params\<close> false), node
  class or owned parameter name. It returns no mapping. Every target that matches
  nothing is listed; a target whose every match has an earlier matching target is
  listed too.
\<close>

theorem match_layers_params_missing_targets:
  assumes "targets \<notin> {Str ALL_TARGET, Str ALL_PRUNABLE_TARGET, Str ALL_QUANTIZABLE_TARGET}"
    and "\<exists>i < length (as_list targets). \<not> fst (walk E (as_list targets) module params) ! i"
  shows "match_layers_params E targets module params =
           Inl (TargetsNotFound
                  (map (\<lambda>i. as_list targets ! i)
                     (filter (\<lambda>i. \<not> claimed E (as_list targets) module params i)
                        [0..<length (as_list targets)])))
         \<and> (\<forall>resolved. match_layers_params E targets module params \<noteq> Inr resolved)
         \<and> (\<forall>i < length (as_list targets).
               \<not> matched E (as_list targets) module params i
               \<longrightarrow> \<not> claimed E (as_list targets) module params i)"
proof -
  define ts where "ts = as_list targets"
  obtain tf res where w: "walk E ts module params = (tf, res)"
    by (cases "walk E ts module params")
  from walk_flags[of E ts module params] w
  have len: "length tf = length ts"
    and fl: "\<forall>i<length ts. tf ! i = claimed E ts module params i"
    by (simp_all add: target_found_claimed)
  have flt: "filter (\<lambda>i. \<not> tf ! i) [0..<length ts] =
             filter (\<lambda>i. \<not> claimed E ts module params i) [0..<length ts]"
    using fl by (intro filter_cong) simp_all
  from assms(2) w obtain i where i: "i < length ts" "\<not> tf ! i" by (auto simp: ts_def)
  then have "i \<in> set (filter (\<lambda>i. \<not> tf ! i) [0..<length ts])" by simp
  then have ne: "filter (\<lambda>i. \<not> tf ! i) [0..<length ts] \<noteq> []" by force
  have ne': "filter (\<lambda>(found, target). \<not> found) (zip tf ts) \<noteq> []"
    using ne missed_eq[OF len] by (metis map_is_Nil_conv)
  have "match_layers_params E targets module params =
           Inl (TargetsNotFound (map (\<lambda>i. ts ! i) (filter (\<lambda>i. \<not> tf ! i) [0..<length ts])))"
    using assms(1) ne' w
    by (simp add: match_layers_params_def ts_def[symmetric] missed_eq[OF len] Let_def)
  then have "match_layers_params E targets module params =
           Inl (TargetsNotFound
                  (map (\<lambda>i. as_list targets ! i)
                     (filter (\<lambda>i. \<not> claimed E (as_list targets) module params i)
                        [0..<length (as_list targets)])))"
    using flt by (simp add: ts_def)
  moreover have "\<forall>i < length (as_list targets).
               \<not> matched E (as_list targets) module params i
               \<longrightarrow> \<not> claimed E (as_list targets) module params i"
    using claimed_matched by blast
  ultimately show ?thesis by simp
qed

subsection \<open>Instances on a concrete model\<close>

theorem match_targets_first_match_witness:
  "match_targets host_env ''block.conv'' (Lst [''fc1'', ''re:block'', ''block.conv'']) = (True, 1)
   \<and> match_targets host_env ''block.conv'' (Lst [''fc1'', ''re:conv'']) = (False, -1)"
proof -
  have m: "target_matches host_env ''block.conv'' t = (t \<in> {''re:block'', ''block.conv''})"
    if "t \<in> {''fc1'', ''re:block'', ''block.conv'', ''re:conv''}" for t
    using that by (auto simp: target_matches_def host_env_def)
  show ?thesis
    using match_targets_first_match[of "Lst [''fc1'', ''re:block'', ''block.conv'']" host_env "''block.conv''" "''x''"]
      match_targets_first_match[of "Lst [''fc1'', ''re:conv'']" host_env "''block.conv''" "''x''"]
    by (auto simp: m less_Suc_eq_0_disj numeral_3_eq_3 numeral_2_eq_2)
qed

theorem match_layers_params_missing_targets_witness:
  "Lst [''fc1'', ''missing'', ''re:block'', ''ReLU'', ''gone'']
      \<notin> {Str ALL_TARGET, Str ALL_PRUNABLE_TARGET, Str ALL_QUANTIZABLE_TARGET}
   \<and> \<not> fst (walk host_env [''fc1'', ''missing'', ''re:block'', ''ReLU'', ''gone''] example_model False) ! 1
   \<and> match_layers_params host_env (Lst [''fc1'', ''missing'', ''re:block'', ''ReLU'', ''gone''])
        example_model False = Inl (TargetsNotFound [''missing'', ''gone''])"
proof -
  let ?ts = "[''fc1'', ''missing'', ''re:block'', ''ReLU'', ''gone'']"
  have h1: "Lst ?ts \<notin> {Str ALL_TARGET, Str ALL_PRUNABLE_TARGET, Str ALL_QUANTIZABLE_TARGET}"
    by simp
  have w1: "\<not> fst (walk host_env ?ts example_model False) ! 1"
    by code_simp
  have h2: "\<exists>i < length (as_list (Lst ?ts)). \<not> fst (walk host_env (as_list (Lst ?ts)) example_model False) ! i"
    using w1 by (intro exI[of _ 1]) simp
  have e: "map (\<lambda>i. as_list (Lst ?ts) ! i)
             (filter (\<lambda>i. \<not> claimed host_env (as_list (Lst ?ts)) example_model False i)
                [0..<length (as_list (Lst ?ts))]) = [''missing'', ''gone'']"
    by code_simp
  from match_layers_params_missing_targets[OF h1 h2] have
    "match_layers_params host_env (Lst ?ts) example_model False = Inl (TargetsNotFound [''missing'', ''gone''])"
    unfolding e by blast
  with h1 w1 show ?thesis by simp
qed

text \<open>
  A matched target can be listed. The literal \<^verbatim>\<open>block.conv\<close> is the name of a node, yet
  the pattern \<^verbatim>\<open>re:block\<close> before it is the first target that matches this name (and the
  name of the node's parameter), so the index of the literal stays unmarked and the error
  names it.
\<close>

theorem match_layers_params_missing_targets_counterexample:
  "Lst [''re:block'', ''block.conv'']
      \<notin> {Str ALL_TARGET, Str ALL_PRUNABLE_TARGET, Str ALL_QUANTIZABLE_TARGET}
   \<and> \<not> fst (walk host_env [''re:block'', ''block.conv''] example_model False) ! 1
   \<and> match_layers_params host_env (Lst [''re:block'', ''block.conv'']) example_model False
       = Inl (TargetsNotFound [''block.conv''])
   \<and> (''block.conv'', ([''block'', ''conv''], Module ''Conv2d'' [ConvNd] [(''weight'', 4)] []))
       \<in> set (named_modules example_model)
   \<and> target_matches host_env (fix_fsdp_module_name host_env ''block.conv'') ''block.conv''
   \<and> matched host_env [''re:block'', ''block.conv''] example_model False 1"
proof -
  have a: "Lst [''re:block'', ''block.conv'']
      \<notin> {Str ALL_TARGET, Str ALL_PRUNABLE_TARGET, Str ALL_QUANTIZABLE_TARGET}" by simp
  have b: "\<not> fst (walk host_env [''re:block'', ''block.conv''] example_model False) ! 1"
    by code_simp
  have c: "match_layers_params host_env (Lst [''re:block'', ''block.conv'']) example_model False
       = Inl (TargetsNotFound [''block.conv''])"
    by code_simp
  have d: "(''block.conv'', ([''block'', ''conv''], Module ''Conv2d'' [ConvNd] [(''weight'', 4)] []))
       \<in> set (named_modules example_model)"
    by (simp add: named_modules_def example_model_def)
  have e: "target_matches host_env (fix_fsdp_module_name host_env ''block.conv'') ''block.conv''"
    by (simp add: target_matches_def host_env_def)
  have f: "matched host_env [''re:block'', ''block.conv''] example_model False 1"
    by code_simp
  from a b c d e f show ?thesis by (simp only: simp_thms)
qed

subsection \<open>Class matching\<close>

text \<open>
  C4. Class matching succeeds exactly when the simple name of the layer's class is equal
  to one of the targets. No regular expression is involved: where a \<^verbatim>\<open>re:\<close> target
  matches a name in \<^verbatim>\<open>match_targets\<close>, the same target matches a class only if the class
  is literally named so.
\<close>

theorem match_class_literal_only:
  "fst (match_class l targets) = (class_name l \<in> set (as_list targets))
   \<and> (re_match E ''Linear'' ''Linear'' \<longrightarrow>
        fst (match_targets E ''Linear'' (Lst [''re:Linear'']))
        \<and> match_class (Module ''Linear'' b ps cs) (Lst [''re:Linear'']) = (False, -1))
   \<and> match_class (Module ''re:Linear'' b ps cs) (Lst [''re:Linear'']) = (True, 0)
   \<and> match_class (Module ''re:Linear'' b ps cs) (Str ''re:Linear'') = (True, 0)"
proof -
  have "fst (match_class l targets) = (class_name l \<in> set (as_list targets))"
    using match_class_from_first[of "as_list targets" l 0]
    by (auto simp: match_class_def in_set_conv_nth)
  then show ?thesis
    by (simp add: match_class_def match_targets_def)
qed

theorem match_class_literal_only_witness:
  "re_match host_env ''Linear'' ''Linear''
   \<and> fst (match_targets host_env ''Linear'' (Lst [''re:Linear'']))
   \<and> match_class (Module ''Linear'' [Linear] [(''weight'', 1::nat)] []) (Lst [''re:Linear'']) = (False, -1)
   \<and> \<not> fst (match_class (Module ''Linear'' [Linear] [(''weight'', 1::nat)] []) (Lst [''re:Lin'', ''Lin'']))"
proof -
  have h: "re_match host_env ''Linear'' ''Linear''"
    by (simp add: host_env_def)
  show ?thesis
    using h match_class_literal_only[of "Module ''Linear'' [Linear] [(''weight'', 1::nat)] []"
        "Lst [''re:Lin'', ''Lin'']" host_env "[Linear]" "[(''weight'', 1::nat)]" "[]"]
    by simp
qed

subsection \<open>The result of the resolver on targets that are no sentinel\<close>

lemma match_layers_params_general:
  assumes "targets \<notin> {Str ALL_TARGET, Str ALL_PRUNABLE_TARGET, Str ALL_QUANTIZABLE_TARGET}"
  shows "match_layers_params E targets module params =
           (if \<forall>i < length (as_list targets). target_found E (as_list targets) module params i
            then Inr (snd (walk E (as_list targets) module params))
            else Inl (TargetsNotFound
                  (map (\<lambda>i. as_list targets ! i)
                     (filter (\<lambda>i. \<not> target_found E (as_list targets) module params i)
                        [0..<length (as_list targets)]))))"
proof -
  define ts where "ts = as_list targets"
  obtain tf res where w: "walk E ts module params = (tf, res)"
    by (cases "walk E ts module params")
  from walk_flags[of E ts module params] w
  have len: "length tf = length ts"
    and fl: "\<forall>i<length ts. tf ! i = target_found E ts module params i" by simp_all
  have flt: "filter (\<lambda>i. \<not> tf ! i) [0..<length ts] =
             filter (\<lambda>i. \<not> target_found E ts module params i) [0..<length ts]"
    using fl by (intro filter_cong) simp_all
  have e: "(filter (\<lambda>(found, target). \<not> found) (zip tf ts) = []) =
           (\<forall>i < length ts. target_found E ts module params i)"
  proof -
    have "(filter (\<lambda>(found, target). \<not> found) (zip tf ts) = []) =
          (map snd (filter (\<lambda>(found, target). \<not> found) (zip tf ts)) = [])" by simp
    also have "\<dots> = (filter (\<lambda>i. \<not> tf ! i) [0..<length ts] = [])"
      unfolding missed_eq[OF len] by simp
    also have "\<dots> = (\<forall>i < length ts. target_found E ts module params i)"
      using fl by (auto simp: filter_empty_conv)
    finally show ?thesis .
  qed
  have "match_layers_params E targets module params =
          (if \<forall>i < length ts. target_found E ts module params i then Inr res
           else Inl (TargetsNotFound (map (\<lambda>i. ts ! i) (filter (\<lambda>i. \<not> tf ! i) [0..<length ts]))))"
    using assms w e
    by (simp add: match_layers_params_def ts_def[symmetric] missed_eq[OF len] Let_def)
  then show ?thesis using flt w by (simp add: ts_def)
qed

subsection \<open>A sentinel string inside a list\<close>

lemma match_targets_literal:
  assumes "take 3 s \<noteq> ''re:''"
  shows "match_targets E name (Lst [s]) = (if name = s then (True, 0) else (False, -1))"
  using assms by (simp add: match_targets_def)

lemma match_class_single:
  "match_class l (Lst [s]) = (if class_name l = s then (True, 0) else (False, -1))"
  by (simp add: match_class_def)

lemma target_found_literal:
  assumes re: "take 3 s \<noteq> ''re:''" and dot: "CHR ''.'' \<notin> set s"
  shows "target_found E [s] module params 0 =
           (\<exists>nl \<in> set (named_modules module).
               (\<not> params \<and> fix_fsdp_module_name E (fst nl) = s) \<or> class_name (snd (snd nl)) = s)"
proof -
  have np: "name @ ''.'' @ pn \<noteq> s" for name pn
    using dot by auto
  have "marked_at E [s] params nl 0 =
          ((\<not> params \<and> fix_fsdp_module_name E (fst nl) = s) \<or> class_name (snd (snd nl)) = s)" for nl :: "string \<times> 'a layer"
    using np by (cases nl) (auto simp: marked_at_def match_targets_literal[OF re] match_class_single
        Let_def list_ex_iff split: if_splits)
  then show ?thesis by (simp add: target_found_def list_ex_iff)
qed

text \<open>
  C9. Only the bare sentinel string short-circuits. A list holding one sentinel string
  goes through the traversal like any literal target: the call raises the error naming
  that string unless a node is named so (and \<^verbatim>\<open>params\<close> is false) or a node's class is
  named so, and then it returns what the traversal resolved. The bare string
  \<^verbatim>\<open>__ALL__\<close> returns the terminal layers instead.
\<close>

theorem sentinel_inside_list_is_literal:
  assumes "s \<in> {ALL_TARGET, ALL_PRUNABLE_TARGET, ALL_QUANTIZABLE_TARGET}"
  shows "(match_layers_params E (Lst [s]) module params = Inl (TargetsNotFound [s])) =
           (\<not> (\<exists>nl \<in> set (named_modules module).
                  (\<not> params \<and> fix_fsdp_module_name E (fst nl) = s) \<or> class_name (snd (snd nl)) = s))
       \<and> ((\<exists>nl \<in> set (named_modules module).
                  (\<not> params \<and> fix_fsdp_module_name E (fst nl) = s) \<or> class_name (snd (snd nl)) = s)
            \<longrightarrow> match_layers_params E (Lst [s]) module params = Inr (snd (walk E [s] module params)))
       \<and> match_layers_params E (Str ALL_TARGET) module False =
            Inr (map (\<lambda>(name, l). (name, Layer l)) (get_terminal_layers module))"
proof -
  have re: "take 3 s \<noteq> ''re:''" and dot: "CHR ''.'' \<notin> set s"
    using assms by (auto simp: ALL_TARGET_def ALL_PRUNABLE_TARGET_def ALL_QUANTIZABLE_TARGET_def)
  have ns: "Lst [s] \<notin> {Str ALL_TARGET, Str ALL_PRUNABLE_TARGET, Str ALL_QUANTIZABLE_TARGET}"
    by simp
  have g: "match_layers_params E (Lst [s]) module params =
             (if target_found E [s] module params 0 then Inr (snd (walk E [s] module params))
              else Inl (TargetsNotFound [s]))"
    using match_layers_params_general[OF ns, of E module params] by simp
  show ?thesis
    unfolding g target_found_literal[OF re dot]
    by (simp add: match_layers_params_def values_or_params_def)
qed

theorem sentinel_inside_list_is_literal_witness:
  "ALL_TARGET \<in> {ALL_TARGET, ALL_PRUNABLE_TARGET, ALL_QUANTIZABLE_TARGET}
   \<and> match_layers_params host_env (Lst [ALL_TARGET]) example_model False
       = Inl (TargetsNotFound [''__ALL__''])
   \<and> match_layers_params host_env (Str ALL_TARGET) example_model False \<noteq> Inl (TargetsNotFound [''__ALL__''])"
proof -
  have h: "ALL_TARGET \<in> {ALL_TARGET, ALL_PRUNABLE_TARGET, ALL_QUANTIZABLE_TARGET}" by simp
  have n: "\<not> (\<exists>nl \<in> set (named_modules example_model).
                  (\<not> False \<and> fix_fsdp_module_name host_env (fst nl) = ALL_TARGET)
                  \<or> class_name (snd (snd nl)) = ALL_TARGET)"
    by (simp add: named_modules_def example_model_def host_env_def ALL_TARGET_def)
  show ?thesis
    using sentinel_inside_list_is_literal[OF h, of host_env example_model False] n h
    by (simp add: ALL_TARGET_def)
qed

subsection \<open>Parameterized layers\<close>

lemma set_update_subset: "set (AList.update k v al) \<subseteq> insert (k, v) (set al)"
  by (induction al) auto

lemma parameterize_fields:
  assumes "parameterize layers ps acc = Inr d"
    and "\<forall>(name, pl) \<in> set acc. layer_name pl = name \<and> param_name pl = name
            \<and> map_of layers name = Some (layer pl)"
  shows "\<forall>(name, pl) \<in> set d. layer_name pl = name \<and> param_name pl = name
            \<and> map_of layers name = Some (layer pl)"
  using assms
proof (induction ps arbitrary: acc)
  case Nil
  then show ?case by simp
next
  case (Cons np ps)
  obtain name p where np: "np = (name, p)" by (cases np)
  from Cons.prems(1) np obtain l where l: "map_of layers name = Some l"
    by (cases "map_of layers name") simp_all
  let ?acc = "AList.update name \<lparr>layer_name = name, layer = l, param_name = name, param = p\<rparr> acc"
  from Cons.prems(1) np l have r: "parameterize layers ps ?acc = Inr d" by simp
  have "\<forall>(name, pl) \<in> set ?acc. layer_name pl = name \<and> param_name pl = name
            \<and> map_of layers name = Some (layer pl)"
    using Cons.prems(2) l set_update_subset[of name _ acc] by fastforce
  from Cons.IH[OF r this] show ?case .
qed

text \<open>
  C10. In every entry of the mapping that \<^verbatim>\<open>get_layers_params\<close> returns, the field
  \<^verbatim>\<open>param_name\<close> is the key of the entry, the dotted name of the layer, as
  \<^verbatim>\<open>layer_name\<close> is; it is not the local name of the parameter.
\<close>

theorem get_layers_params_param_name:
  assumes "get_layers_params E targets module = Inr d" and "(name, pl) \<in> set d"
  shows "param_name pl = name \<and> layer_name pl = name"
proof -
  from assms(1) obtain params layers where "parameterize layers params [] = Inr d"
    by (auto simp: get_layers_params_def split: sum.splits)
  from parameterize_fields[OF this] assms(2) show ?thesis by auto
qed

theorem get_layers_params_param_name_witness:
  "get_layers_params host_env (Lst [''block.conv.weight'']) example_model =
     Inr [(''block.conv'',
           \<lparr>layer_name = ''block.conv'',
            layer = Layer ([''block'', ''conv''], Module ''Conv2d'' [ConvNd] [(''weight'', 4)] []),
            param_name = ''block.conv'', param = Param 4\<rparr>)]
   \<and> param_name \<lparr>layer_name = ''block.conv'',
            layer = Layer ([''block'', ''conv''], Module ''Conv2d'' [ConvNd] [(''weight'', 4::nat)] []),
            param_name = ''block.conv'', param = Param 4\<rparr> = ''block.conv''"
proof -
  have e: "get_layers_params host_env (Lst [''block.conv.weight'']) example_model =
     Inr [(''block.conv'',
           \<lparr>layer_name = ''block.conv'',
            layer = Layer ([''block'', ''conv''], Module ''Conv2d'' [ConvNd] [(''weight'', 4)] []),
            param_name = ''block.conv'', param = Param 4\<rparr>)]"
    by code_simp
  show ?thesis
    using e get_layers_params_param_name[OF e, of "''block.conv''"]
    by simp
qed

subsection \<open>The best match\<close>

lemma consider_match_step:
  "consider_match E ref c (n0, m0) =
     (if find_longest_match E (fst c) ref > n0 then (find_longest_match E (fst c) ref, Some c)
      else (n0, m0))"
  by (simp add: consider_match_def Let_def)

lemma fold_consider_match:
  assumes "fold (consider_match E ref) cands (n0, m0) = (n, m)"
  shows "n0 \<le> n
       \<and> (\<forall>c \<in> set cands. find_longest_match E (fst c) ref \<le> n)
       \<and> ((m = m0 \<and> n = n0)
          \<or> (\<exists>i < length cands. m = Some (cands ! i)
                \<and> n = find_longest_match E (fst (cands ! i)) ref \<and> n0 < n
                \<and> (\<forall>j < i. find_longest_match E (fst (cands ! j)) ref < n)))"
  using assms
proof (induction cands arbitrary: n0 m0)
  case Nil
  then show ?case by simp
next
  case (Cons c cands)
  let ?k = "find_longest_match E (fst c) ref"
  show ?case
  proof (cases "?k > n0")
    case True
    with Cons.prems have r: "fold (consider_match E ref) cands (?k, Some c) = (n, m)"
      by (simp add: consider_match_step)
    from Cons.IH[OF r] have le: "?k \<le> n"
      and all: "\<forall>c \<in> set cands. find_longest_match E (fst c) ref \<le> n"
      and d: "(m = Some c \<and> n = ?k)
          \<or> (\<exists>i < length cands. m = Some (cands ! i)
                \<and> n = find_longest_match E (fst (cands ! i)) ref \<and> ?k < n
                \<and> (\<forall>j < i. find_longest_match E (fst (cands ! j)) ref < n))" by blast+
    from d have "\<exists>i < length (c # cands). m = Some ((c # cands) ! i)
                \<and> n = find_longest_match E (fst ((c # cands) ! i)) ref \<and> n0 < n
                \<and> (\<forall>j < i. find_longest_match E (fst ((c # cands) ! j)) ref < n)"
    proof
      assume "m = Some c \<and> n = ?k"
      with True show ?thesis by (intro exI[of _ 0]) simp
    next
      assume "\<exists>i < length cands. m = Some (cands ! i)
                \<and> n = find_longest_match E (fst (cands ! i)) ref \<and> ?k < n
                \<and> (\<forall>j < i. find_longest_match E (fst (cands ! j)) ref < n)"
      then obtain i where i: "i < length cands" "m = Some (cands ! i)"
        "n = find_longest_match E (fst (cands ! i)) ref" "?k < n"
        "\<forall>j < i. find_longest_match E (fst (cands ! j)) ref < n" by blast
      have "\<forall>j < Suc i. find_longest_match E (fst ((c # cands) ! j)) ref < n"
        using i(4,5) by (auto simp: less_Suc_eq_0_disj)
      with i True show ?thesis by (intro exI[of _ "Suc i"]) auto
    qed
    with le all True show ?thesis by auto
  next
    case False
    with Cons.prems have r: "fold (consider_match E ref) cands (n0, m0) = (n, m)"
      by (simp add: consider_match_step)
    from Cons.IH[OF r] have le: "n0 \<le> n"
      and all: "\<forall>c \<in> set cands. find_longest_match E (fst c) ref \<le> n"
      and d: "(m = m0 \<and> n = n0)
          \<or> (\<exists>i < length cands. m = Some (cands ! i)
                \<and> n = find_longest_match E (fst (cands ! i)) ref \<and> n0 < n
                \<and> (\<forall>j < i. find_longest_match E (fst (cands ! j)) ref < n))" by blast+
    from d have "(m = m0 \<and> n = n0) \<or> (\<exists>i < length (c # cands). m = Some ((c # cands) ! i)
                \<and> n = find_longest_match E (fst ((c # cands) ! i)) ref \<and> n0 < n
                \<and> (\<forall>j < i. find_longest_match E (fst ((c # cands) ! j)) ref < n))"
    proof
      assume "m = m0 \<and> n = n0" then show ?thesis by simp
    next
      assume "\<exists>i < length cands. m = Some (cands ! i)
                \<and> n = find_longest_match E (fst (cands ! i)) ref \<and> n0 < n
                \<and> (\<forall>j < i. find_longest_match E (fst (cands ! j)) ref < n)"
      then obtain i where i: "i < length cands" "m = Some (cands ! i)"
        "n = find_longest_match E (fst (cands ! i)) ref" "n0 < n"
        "\<forall>j < i. find_longest_match E (fst (cands ! j)) ref < n" by blast
      have "\<forall>j < Suc i. find_longest_match E (fst ((c # cands) ! j)) ref < n"
        using i(4,5) False by (auto simp: less_Suc_eq_0_disj)
      with i show ?thesis by (intro disjI2 exI[of _ "Suc i"]) auto
    qed
    with le all False show ?thesis by auto
  qed
qed

lemma best_match_spec:
  "(best_match E ref cands = None \<and> (\<forall>c \<in> set cands. find_longest_match E (fst c) ref = 0))
   \<or> (\<exists>i < length cands. best_match E ref cands = Some (cands ! i)
        \<and> 0 < find_longest_match E (fst (cands ! i)) ref
        \<and> (\<forall>c \<in> set cands. find_longest_match E (fst c) ref \<le> find_longest_match E (fst (cands ! i)) ref)
        \<and> (\<forall>j < i. find_longest_match E (fst (cands ! j)) ref < find_longest_match E (fst (cands ! i)) ref))"
proof -
  obtain n m where f: "fold (consider_match E ref) cands (0, None) = (n, m)"
    by (cases "fold (consider_match E ref) cands (0, None)")
  from fold_consider_match[OF f] f show ?thesis
    by (auto simp: best_match_def)
qed

text \<open>
  What \<^verbatim>\<open>get_matching_layer\<close> returns when \<^verbatim>\<open>get_layers\<close> returns candidates: among
  them, in their order, the first one whose name has the greatest length of common
  substring with the reference name, as \<^verbatim>\<open>find_longest_match\<close> reports it (every earlier
  candidate has a strictly smaller length, no candidate a greater one), and \<^verbatim>\<open>None\<close> when
  there is no candidate or every candidate has length zero.
\<close>

theorem get_matching_layer_best:
  assumes "get_layers E (Str target) module False = Inr cands"
  shows "(get_matching_layer E target ref module = Inr None
            \<and> (\<forall>c \<in> set cands. find_longest_match E (fst c) ref = 0))
       \<or> (\<exists>i < length cands.
            get_matching_layer E target ref module = Inr (Some (cands ! i))
            \<and> 0 < find_longest_match E (fst (cands ! i)) ref
            \<and> (\<forall>c \<in> set cands. find_longest_match E (fst c) ref
                    \<le> find_longest_match E (fst (cands ! i)) ref)
            \<and> (\<forall>j < i. find_longest_match E (fst (cands ! j)) ref
                    < find_longest_match E (fst (cands ! i)) ref))"
  using best_match_spec[of E ref cands] assms
  by (simp add: get_matching_layer_def)

theorem get_matching_layer_best_witness:
  "get_layers host_env (Str ''re:.*k_proj'') attention_model False =
     Inr [(''layers.3.k_proj'',
           Layer ([''layers'', ''3'', ''k_proj''], Module ''Linear'' [Linear] [(''weight'', 2)] [])),
          (''layers.7.k_proj'',
           Layer ([''layers'', ''7'', ''k_proj''], Module ''Linear'' [Linear] [(''weight'', 4)] []))]
   \<and> get_matching_layer host_env ''re:.*k_proj'' ''layers.7.q_proj'' attention_model =
       Inr (Some (''layers.7.k_proj'',
           Layer ([''layers'', ''7'', ''k_proj''], Module ''Linear'' [Linear] [(''weight'', 4)] [])))
   \<and> get_matching_layer host_env ''re:.*k_proj'' ''o_proj'' attention_model =
       Inr (Some (''layers.3.k_proj'',
           Layer ([''layers'', ''3'', ''k_proj''], Module ''Linear'' [Linear] [(''weight'', 2)] [])))
   \<and> get_matching_layer host_env ''re:.*k_proj'' ''w'' attention_model = Inr None"
proof -
  let ?c3 = "(''layers.3.k_proj'',
           Layer ([''layers'', ''3'', ''k_proj''], Module ''Linear'' [Linear] [(''weight'', 2::nat)] []))"
  let ?c7 = "(''layers.7.k_proj'',
           Layer ([''layers'', ''7'', ''k_proj''], Module ''Linear'' [Linear] [(''weight'', 4::nat)] []))"
  have e: "get_layers host_env (Str ''re:.*k_proj'') attention_model False = Inr [?c3, ?c7]"
    by code_simp
  have r1: "get_matching_layer host_env ''re:.*k_proj'' ''layers.7.q_proj'' attention_model = Inr (Some ?c7)"
    by code_simp
  have r2: "get_matching_layer host_env ''re:.*k_proj'' ''o_proj'' attention_model = Inr (Some ?c3)"
    by code_simp
  have r3: "get_matching_layer host_env ''re:.*k_proj'' ''w'' attention_model = Inr None"
    by code_simp
  show ?thesis
    using get_matching_layer_best[OF e, of "''layers.7.q_proj''"]
    by (simp only: e r1 r2 r3 simp_thms)
qed

lemma get_matching_layer_error:
  "get_layers E (Str target) module False = Inl e
     \<Longrightarrow> get_matching_layer E target ref module = Inl e"
  by (simp add: get_matching_layer_def)

lemma get_matching_layer_unresolved:
  assumes "Str target \<notin> {Str ALL_TARGET, Str ALL_PRUNABLE_TARGET, Str ALL_QUANTIZABLE_TARGET}"
    and "\<not> target_found E [target] module False 0"
  shows "get_matching_layer E target ref module = Inl (TargetsNotFound [target])"
proof -
  from match_layers_params_general[OF assms(1), of E module False] assms(2)
  have "match_layers_params E (Str target) module False = Inl (TargetsNotFound [target])"
    by simp
  then show ?thesis
    by (simp add: get_matching_layer_def get_layers_def)
qed

text \<open>
  C5. \<^verbatim>\<open>get_matching_layer\<close> is documented to return \<^verbatim>\<open>None\<close> if no match can be found.
  When the target matches no layer of the tree there is no candidate, and the call does
  not return \<^verbatim>\<open>None\<close>: the error of the resolver, raised inside \<^verbatim>\<open>get_layers\<close>, leaves
  the function. Here the target \<^verbatim>\<open>re:.*v_proj\<close> on a model without such a layer.
\<close>

theorem get_matching_layer_raises_without_candidate:
  "get_matching_layer host_env ''re:.*v_proj'' ''layers.7.q_proj'' attention_model
     = Inl (TargetsNotFound [''re:.*v_proj''])
   \<and> get_matching_layer host_env ''re:.*v_proj'' ''layers.7.q_proj'' attention_model \<noteq> Inr None"
proof -
  have "get_matching_layer host_env ''re:.*v_proj'' ''layers.7.q_proj'' attention_model
     = Inl (TargetsNotFound [''re:.*v_proj''])"
    by code_simp
  then show ?thesis by simp
qed

subsection \<open>Names in a well-formed tree\<close>

lemma named_modules_from_prefix:
  "(n, x) \<in> set (named_modules_from q path m) \<Longrightarrow> \<exists>s. n = q @ s"
proof (induction q path m arbitrary: n x rule: named_modules_from.induct)
  case (1 prefix path c b ps cs)
  from "1.prems" show ?case
  proof (auto, goal_cases)
    case (1 name child)
    from "1.IH"[OF 1(1) refl 1(2)] show ?case by auto
  qed
qed

lemma named_modules_unfold:
  "named_modules (Module c b ps cs) =
     ([], ([], Module c b ps cs)) #
       concat (map (\<lambda>(name, child). named_modules_from name [name] child) cs)"
  by (simp add: named_modules_def)

lemma find_weight_own:
  "find (\<lambda>(pn, p). pn = w) ps =
     (case map_of ps w of None \<Rightarrow> None | Some v \<Rightarrow> Some (w, v))"
  by (induction ps) auto

lemma find_append:
  "find P (xs @ ys) = (case find P xs of None \<Rightarrow> find P ys | Some x \<Rightarrow> Some x)"
  by (induction xs) auto

lemma find_none_iff: "(find P xs = None) = (\<forall>x \<in> set xs. \<not> P x)"
  by (induction xs) auto

lemma named_parameters_split:
  assumes "wf_module m"
  shows "\<exists>nested. named_parameters m = parameters m @ nested
            \<and> (\<forall>(pn, p) \<in> set nested. CHR ''.'' \<in> set pn)"
proof -
  obtain c b ps cs where m: "m = Module c b ps cs" by (cases m)
  let ?g = "\<lambda>(module_prefix, l :: 'a layer).
        map (\<lambda>(k, v). (module_prefix @ (if module_prefix = [] then [] else ''.'') @ k, v))
          (parameters (snd l))"
  let ?nested = "concat (map ?g (concat (map (\<lambda>(name, child). named_modules_from name [name] child) cs)))"
  have own: "map (\<lambda>(k, v). (k, v)) ps = ps" by (induction ps) auto
  have eq: "named_parameters m = parameters m @ ?nested"
    unfolding named_parameters_def m named_modules_unfold by (simp add: own)
  have "CHR ''.'' \<in> set pn" if "(pn, p) \<in> set ?nested" for pn p
  proof -
    from that obtain n l name child k where
      nc: "(name, child) \<in> set cs" and nl: "(n, l) \<in> set (named_modules_from name [name] child)"
      and pn: "pn = n @ (if n = [] then [] else ''.'') @ k"
      by auto
    from nc assms m have "name \<noteq> []" by (auto simp: list_all_iff attr_name_ok_def)
    with named_modules_from_prefix[OF nl] have "n \<noteq> []" by auto
    with pn show ?thesis by simp
  qed
  with eq show ?thesis by blast
qed

lemma find_weight:
  assumes "wf_module m"
  shows "find (\<lambda>(pn, p). pn = ''weight'') (named_parameters m) =
           (case map_of (parameters m) ''weight'' of None \<Rightarrow> None | Some v \<Rightarrow> Some (''weight'', v))"
proof -
  from named_parameters_split[OF assms] obtain nested where
    eq: "named_parameters m = parameters m @ nested"
    and dots: "\<forall>(pn, p) \<in> set nested. CHR ''.'' \<in> set pn" by blast
  have "find (\<lambda>(pn, p). pn = ''weight'') nested = None"
    using dots by (auto simp: find_none_iff)
  then show ?thesis
    by (simp add: eq find_append find_weight_own split: option.splits)
qed

lemma update_fresh: "k \<notin> fst ` set al \<Longrightarrow> AList.update k v al = al @ [(k, v)]"
  by (induction al) auto

subsection \<open>Default parameters\<close>

lemma default_keys_subset:
  "(k, v) \<in> set (concat (map (\<lambda>(name, l). case g l of None \<Rightarrow> [] | Some w \<Rightarrow> [(name, w)]) ls))
     \<Longrightarrow> \<exists>l. (k, l) \<in> set ls"
proof (induction ls)
  case Nil
  then show ?case by simp
next
  case (Cons x ls)
  obtain n l where x: "x = (n, l)" by (cases x)
  show ?case
  proof (cases "(k, v) \<in> set (concat (map (\<lambda>(name, l). case g l of None \<Rightarrow> [] | Some w \<Rightarrow> [(name, w)]) ls))")
    case True
    from Cons.IH[OF this] show ?thesis by auto
  next
    case False
    with Cons.prems x have "k = n" by (cases "g l") auto
    with x show ?thesis by auto
  qed
qed

lemma get_default_params_fold:
  assumes "distinct (map fst layers)"
    and "\<forall>(name, l) \<in> set layers. wf_module (snd l)"
    and "fst ` set acc \<inter> fst ` set layers = {}"
  shows "fold (\<lambda>(name, l) params.
        case find (\<lambda>(pn, p). pn = ''weight'') (named_parameters (snd l)) of
          None \<Rightarrow> params
        | Some (pn, p) \<Rightarrow> AList.update name p params) layers acc =
      acc @ concat (map (\<lambda>(name, l). case map_of (parameters (snd l)) ''weight'' of
                            None \<Rightarrow> [] | Some w \<Rightarrow> [(name, w)]) layers)"
  using assms
proof (induction layers arbitrary: acc)
  case Nil
  then show ?case by simp
next
  case (Cons nl layers)
  obtain name l where nl: "nl = (name, l)" by (cases nl)
  from Cons.prems nl have wf: "wf_module (snd l)" and fresh: "name \<notin> fst ` set acc"
    and d: "distinct (map fst layers)" and r: "\<forall>(name, l) \<in> set layers. wf_module (snd l)"
    and nn: "name \<notin> fst ` set layers" and dj: "fst ` set acc \<inter> fst ` set layers = {}"
    by auto
  show ?case
  proof (cases "map_of (parameters (snd l)) ''weight''")
    case None
    with Cons.IH[OF d r dj] show ?thesis
      by (simp add: nl find_weight[OF wf])
  next
    case (Some w)
    have dj': "fst ` set (acc @ [(name, w)]) \<inter> fst ` set layers = {}"
      using dj nn by auto
    from Cons.IH[OF d r dj'] Some show ?thesis
      by (simp add: nl find_weight[OF wf] update_fresh[OF fresh])
  qed
qed

text \<open>
  C7. \<^verbatim>\<open>get_default_params\<close> maps the name of every layer that owns a parameter
  named \<^verbatim>\<open>weight\<close> directly to that parameter, in the order of the layers; a layer
  without such a parameter has no entry, and there is no error.
\<close>

theorem get_default_params_weight:
  assumes "distinct (map fst layers)"
    and "\<forall>(name, l) \<in> set layers. wf_module (snd l)"
  shows "get_default_params layers =
           concat (map (\<lambda>(name, l). case map_of (parameters (snd l)) ''weight'' of
                            None \<Rightarrow> [] | Some w \<Rightarrow> [(name, w)]) layers)
       \<and> map_of (get_default_params layers) name =
           (case map_of layers name of
              None \<Rightarrow> None
            | Some l \<Rightarrow> map_of (parameters (snd l)) ''weight'')"
proof -
  let ?f = "\<lambda>(name, l :: 'a layer). case map_of (parameters (snd l)) ''weight'' of
                            None \<Rightarrow> [] | Some w \<Rightarrow> [(name, w)]"
  have eq: "get_default_params layers = concat (map ?f layers)"
    using get_default_params_fold[OF assms, of "[]"] by (simp add: get_default_params_def)
  have "map_of (concat (map ?f layers)) name =
           (case map_of layers name of
              None \<Rightarrow> None
            | Some l \<Rightarrow> map_of (parameters (snd l)) ''weight'')"
    using assms(1)
  proof (induction layers)
    case Nil
    then show ?case by simp
  next
    case (Cons nl layers)
    obtain n l where nl: "nl = (n, l)" by (cases nl)
    from Cons.prems nl have nn: "n \<notin> fst ` set layers" by auto
    then have none: "map_of layers n = None" by (simp add: map_of_eq_None_iff)
    from Cons.prems have IH: "map_of (concat (map ?f layers)) name =
           (case map_of layers name of
              None \<Rightarrow> None
            | Some l \<Rightarrow> map_of (parameters (snd l)) ''weight'')"
      by (intro Cons.IH) simp
    have "n \<notin> fst ` set (concat (map ?f layers))"
    proof
      assume "n \<in> fst ` set (concat (map ?f layers))"
      then obtain v where "(n, v) \<in> set (concat (map ?f layers))" by force
      from default_keys_subset[OF this] nn show False by force
    qed
    then have k: "map_of (concat (map ?f layers)) n = None"
      by (simp add: map_of_eq_None_iff)
    show ?case
    proof (cases "name = n")
      case True
      then show ?thesis
        by (cases "map_of (parameters (snd l)) ''weight''") (simp_all add: nl k)
    next
      case False
      with IH show ?thesis
        by (cases "map_of (parameters (snd l)) ''weight''") (simp_all add: nl)
    qed
  qed
  with eq show ?thesis by simp
qed

theorem get_default_params_weight_witness:
  "distinct (map fst [(''a'', ([''a''], Module ''Linear'' [Linear] [(''weight'', 1::nat), (''bias'', 2)] [])),
                      (''b'', ([''b''], Module ''Norm'' [] [(''bias'', 3)]
                                 [(''inner'', Module ''Linear'' [Linear] [(''weight'', 4)] [])]))])
   \<and> get_default_params
        [(''a'', ([''a''], Module ''Linear'' [Linear] [(''weight'', 1::nat), (''bias'', 2)] [])),
         (''b'', ([''b''], Module ''Norm'' [] [(''bias'', 3)]
                     [(''inner'', Module ''Linear'' [Linear] [(''weight'', 4)] [])]))]
       = [(''a'', 1)]"
proof -
  let ?layers = "[(''a'', ([''a''], Module ''Linear'' [Linear] [(''weight'', 1::nat), (''bias'', 2)] [])),
                  (''b'', ([''b''], Module ''Norm'' [] [(''bias'', 3)]
                     [(''inner'', Module ''Linear'' [Linear] [(''weight'', 4)] [])]))]"
  have d: "distinct (map fst ?layers)" by simp
  have w: "\<forall>(name, l) \<in> set ?layers. wf_module (snd l)"
    by (simp add: attr_name_ok_def)
  show ?thesis
    using get_default_params_weight[OF d w, of "''a''"] d by simp
qed

subsection \<open>Distinct names\<close>

lemma named_modules_from_suffix:
  "q \<noteq> [] \<Longrightarrow> (n, x) \<in> set (named_modules_from q path m)
     \<Longrightarrow> \<exists>s. n = q @ s \<and> (s = [] \<or> hd s = CHR ''.'')"
proof (induction q path m arbitrary: n x rule: named_modules_from.induct)
  case (1 prefix path c b ps cs)
  from "1.prems"(2) consider "n = prefix"
    | name child where "(name, child) \<in> set cs"
        "(n, x) \<in> set (named_modules_from (prefix @ ''.'' @ name) (path @ [name]) child)"
    using "1.prems"(1) by auto
  then show ?case
  proof cases
    case 1
    then show ?thesis by simp
  next
    case 2
    have "(n, x) \<in> set (named_modules_from (prefix @ (if prefix = [] then [] else ''.'') @ name)
             (path @ [name]) child)"
      using 2(2) "1.prems"(1) by simp
    moreover have "prefix @ (if prefix = [] then [] else ''.'') @ name \<noteq> []"
      using "1.prems"(1) by simp
    ultimately obtain s where "n = (prefix @ (if prefix = [] then [] else ''.'') @ name) @ s"
      using "1.IH"[OF 2(1) refl] by blast
    with "1.prems"(1) have "n = prefix @ (''.'' @ name @ s)" by simp
    then show ?thesis by (intro exI[of _ "''.'' @ name @ s"]) simp
  qed
qed

lemma dotfree_split:
  assumes "CHR ''.'' \<notin> set k" "CHR ''.'' \<notin> set k'"
    and "s = [] \<or> hd s = CHR ''.''" "s' = [] \<or> hd s' = CHR ''.''"
    and "k @ s = k' @ s'"
  shows "k = k'"
proof -
  have all: "\<forall>c \<in> set u. c \<noteq> CHR ''.''" if "CHR ''.'' \<notin> set u" for u :: string
    using that by blast
  have tw: "takeWhile (\<lambda>c. c \<noteq> CHR ''.'') (u @ t) = u"
    if u: "CHR ''.'' \<notin> set u" and t: "t = [] \<or> hd t = CHR ''.''" for u t :: string
  proof (cases t)
    case Nil
    from all[OF u] have "takeWhile (\<lambda>c. c \<noteq> CHR ''.'') u = u"
      by (simp only: takeWhile_eq_all_conv)
    with Nil show ?thesis by simp
  next
    case (Cons a t')
    with t have a: "a = CHR ''.''" by simp
    have "takeWhile (\<lambda>c. c \<noteq> CHR ''.'') (u @ CHR ''.'' # t') = takeWhile (\<lambda>c. c \<noteq> CHR ''.'') u"
      by (rule takeWhile_tail) simp
    also from all[OF u] have "\<dots> = u" by (simp only: takeWhile_eq_all_conv)
    finally show ?thesis by (simp add: Cons a)
  qed
  from tw[OF assms(1,3)] tw[OF assms(2,4)] assms(5) show ?thesis by simp
qed

lemma distinct_concat_map:
  assumes "distinct (map fst cs)"
    and "\<And>x. x \<in> set cs \<Longrightarrow> distinct (g x)"
    and "\<And>x y. x \<in> set cs \<Longrightarrow> y \<in> set cs \<Longrightarrow> fst x \<noteq> fst y \<Longrightarrow> set (g x) \<inter> set (g y) = {}"
  shows "distinct (concat (map g cs))"
  using assms
proof (induction cs)
  case Nil
  then show ?case by simp
next
  case (Cons x cs)
  have d: "distinct (concat (map g cs))"
    using Cons.prems by (intro Cons.IH) auto
  have "set (g x) \<inter> set (g y) = {}" if "y \<in> set cs" for y
  proof -
    from that Cons.prems(1) have "fst x \<noteq> fst y" by force
    with that show ?thesis by (intro Cons.prems(3)) simp_all
  qed
  with d Cons.prems(2)[of x] show ?case by auto
qed

lemma distinct_names_from:
  "wf_module m \<Longrightarrow> distinct (map fst (named_modules_from q path m))"
proof (induction q path m rule: named_modules_from.induct)
  case (1 prefix path c b ps cs)
  let ?q = "\<lambda>name. prefix @ (if prefix = [] then [] else ''.'') @ name"
  let ?g = "\<lambda>(name, child). map fst (named_modules_from (?q name) (path @ [name]) child)"
  from "1.prems" have dk: "distinct (map fst cs)"
    and ok: "\<And>name child. (name, child) \<in> set cs \<Longrightarrow> attr_name_ok name \<and> wf_module child"
    by (auto simp: list_all_iff)
  have shape: "\<exists>s. n = ?q name @ s \<and> (s = [] \<or> hd s = CHR ''.'')"
    if "(name, child) \<in> set cs" "n \<in> set (?g (name, child))" for name child n
  proof -
    from ok[OF that(1)] have "?q name \<noteq> []" by (simp add: attr_name_ok_def)
    moreover from that(2) obtain x where "(n, x) \<in> set (named_modules_from (?q name) (path @ [name]) child)"
      by auto
    ultimately show ?thesis by (rule named_modules_from_suffix)
  qed
  have each: "distinct (?g x)" if "x \<in> set cs" for x
  proof -
    obtain name child where x: "x = (name, child)" by (cases x)
    with that ok have "wf_module child" by blast
    from "1.IH"[OF that[unfolded x] refl this] show ?thesis by (simp add: x)
  qed
  have disj: "set (?g x) \<inter> set (?g y) = {}" if "x \<in> set cs" "y \<in> set cs" "fst x \<noteq> fst y" for x y
  proof -
    obtain n1 c1 where x: "x = (n1, c1)" by (cases x)
    obtain n2 c2 where y: "y = (n2, c2)" by (cases y)
    have False if "n \<in> set (?g x)" "n \<in> set (?g y)" for n
    proof -
      from shape[OF \<open>x \<in> set cs\<close>[unfolded x] that(1)[unfolded x]]
      obtain s1 where s1: "n = ?q n1 @ s1" "s1 = [] \<or> hd s1 = CHR ''.''" by blast
      from shape[OF \<open>y \<in> set cs\<close>[unfolded y] that(2)[unfolded y]]
      obtain s2 where s2: "n = ?q n2 @ s2" "s2 = [] \<or> hd s2 = CHR ''.''" by blast
      from s1(1) s2(1) have "n1 @ s1 = n2 @ s2" by simp
      moreover from ok \<open>x \<in> set cs\<close> \<open>y \<in> set cs\<close> x y
      have "CHR ''.'' \<notin> set n1" "CHR ''.'' \<notin> set n2" by (auto simp: attr_name_ok_def)
      ultimately have "n1 = n2" using s1(2) s2(2) dotfree_split[of n1 n2 s1 s2] by blast
      with \<open>fst x \<noteq> fst y\<close> x y show False by simp
    qed
    then show ?thesis by blast
  qed
  have dc: "distinct (concat (map ?g cs))"
    by (rule distinct_concat_map[OF dk each disj])
  have notin: "prefix \<notin> set (concat (map ?g cs))"
  proof
    assume "prefix \<in> set (concat (map ?g cs))"
    then obtain name child where nc: "(name, child) \<in> set cs" and "prefix \<in> set (?g (name, child))"
      by auto
    from shape[OF this] obtain s where "prefix = ?q name @ s" by blast
    then have "length prefix = length (?q name @ s)" by simp
    moreover from ok[OF nc] have "name \<noteq> []" by (simp add: attr_name_ok_def)
    ultimately show False by (simp split: if_splits)
  qed
  have "map fst (named_modules_from prefix path (Module c b ps cs)) = prefix # concat (map ?g cs)"
    by (simp add: map_concat comp_def split_def)
  with dc notin show ?case by simp
qed

lemma distinct_names: "wf_module m \<Longrightarrow> distinct (map fst (named_modules m))"
  by (simp add: named_modules_def distinct_names_from)

lemma dict_of_fold:
  assumes "distinct (map fst items)" and "fst ` set acc \<inter> fst ` set items = {}"
  shows "fold (\<lambda>(name, v) d. AList.update name v d) items acc = acc @ items"
  using assms
proof (induction items arbitrary: acc)
  case Nil
  then show ?case by simp
next
  case (Cons x items)
  obtain k v where x: "x = (k, v)" by (cases x)
  from Cons.prems x have fresh: "k \<notin> fst ` set acc" by auto
  have "fst ` set (acc @ [(k, v)]) \<inter> fst ` set items = {}"
    using Cons.prems x by auto
  moreover from Cons.prems have "distinct (map fst items)" by simp
  ultimately have "fold (\<lambda>(name, v) d. AList.update name v d) items (acc @ [(k, v)]) = (acc @ [(k, v)]) @ items"
    by (rule Cons.IH[rotated])
  then show ?case by (simp add: x update_fresh[OF fresh])
qed

lemma dict_of_distinct: "distinct (map fst items) \<Longrightarrow> dict_of items = items"
  using dict_of_fold[of items "[]"] by (simp add: dict_of_def)

subsection \<open>Quantizable layers\<close>

text \<open>
  C8. Without the class \<^verbatim>\<open>QATLinear\<close> (quantization-aware training is not available),
  \<^verbatim>\<open>get_quantizable_layers\<close> raises the import error whatever the tree is, so before any
  node is looked at. With it, the result holds exactly the nodes of the traversal whose
  class derives from the dense linear class or from the N-dimensional convolution class,
  each under its name and in the order of the traversal.
\<close>

theorem get_quantizable_layers_spec:
  "(\<not> has_QATLinear E \<longrightarrow> get_quantizable_layers E module = Inl ImportError)
   \<and> (has_QATLinear E \<and> wf_module module \<longrightarrow>
        get_quantizable_layers E module =
          Inr (filter (\<lambda>(name, l). isinstance (snd l) Linear \<or> isinstance (snd l) ConvNd)
                 (named_modules module))
        \<and> (\<forall>name l. (case get_quantizable_layers E module of
                        Inl e \<Rightarrow> False | Inr d \<Rightarrow> (name, l) \<in> set d)
              = ((name, l) \<in> set (named_modules module)
                 \<and> (isinstance (snd l) Linear \<or> isinstance (snd l) ConvNd))))"
proof -
  have "dict_of (filter P (named_modules module)) = filter P (named_modules module)"
    if "wf_module module" for P :: "string \<times> 'a layer \<Rightarrow> bool"
    using distinct_names[OF that] by (intro dict_of_distinct) (simp add: distinct_map_filter)
  then show ?thesis
    by (auto simp: get_quantizable_layers_def)
qed

theorem get_quantizable_layers_spec_witness:
  "\<not> has_QATLinear (host_env\<lparr>has_QATLinear := False\<rparr>)
   \<and> get_quantizable_layers (host_env\<lparr>has_QATLinear := False\<rparr>) example_model = Inl ImportError
   \<and> has_QATLinear host_env \<and> wf_module example_model
   \<and> get_quantizable_layers host_env example_model =
       Inr [(''fc1'', ([''fc1''], Module ''Linear'' [Linear] [(''weight'', 1), (''bias'', 2)] [])),
            (''block.conv'', ([''block'', ''conv''], Module ''Conv2d'' [ConvNd] [(''weight'', 4)] []))]"
proof -
  have h1: "\<not> has_QATLinear (host_env\<lparr>has_QATLinear := False\<rparr>)" by simp
  have h2: "has_QATLinear host_env" by (simp add: host_env_def)
  have h3: "wf_module example_model" by (simp add: example_model_def attr_name_ok_def)
  have e: "filter (\<lambda>(name, l). isinstance (snd l) Linear \<or> isinstance (snd l) ConvNd)
                 (named_modules example_model) =
       [(''fc1'', ([''fc1''], Module ''Linear'' [Linear] [(''weight'', 1), (''bias'', 2)] [])),
        (''block.conv'', ([''block'', ''conv''], Module ''Conv2d'' [ConvNd] [(''weight'', 4)] []))]"
    by code_simp
  show ?thesis
    using get_quantizable_layers_spec[of "host_env\<lparr>has_QATLinear := False\<rparr>" example_model]
      get_quantizable_layers_spec[of host_env example_model] h1 h2 h3
    by (simp add: e)
qed

subsection \<open>Places in the tree\<close>

lemma named_modules_from_place:
  "wf_module m \<Longrightarrow> (n, (p, l)) \<in> set (named_modules_from q path m)
     \<Longrightarrow> \<exists>rel. p = path @ rel \<and> get_at m rel = Some l"
proof (induction q path m arbitrary: n p l rule: named_modules_from.induct)
  case (1 prefix path c b ps cs)
  from "1.prems"(2) consider "p = path" "l = Module c b ps cs"
    | name child where "(name, child) \<in> set cs"
        "(n, (p, l)) \<in> set (named_modules_from (prefix @ (if prefix = [] then [] else ''.'') @ name)
             (path @ [name]) child)"
    by auto
  then show ?case
  proof cases
    case 1
    then show ?thesis by (intro exI[of _ "[]"]) simp
  next
    case 2
    from "1.prems"(1) 2(1) have wfc: "wf_module child" and dk: "distinct (map fst cs)"
      by (auto simp: list_all_iff)
    from "1.IH"[OF 2(1) refl wfc 2(2)] obtain rel where
      rel: "p = (path @ [name]) @ rel" "get_at child rel = Some l" by blast
    from dk 2(1) have "map_of cs name = Some child" by (rule map_of_is_SomeI)
    with rel show ?thesis by (intro exI[of _ "name # rel"]) simp
  qed
qed

lemma named_modules_place:
  "wf_module m \<Longrightarrow> (n, (p, l)) \<in> set (named_modules m) \<Longrightarrow> get_at m p = Some l"
  using named_modules_from_place[of m n p l "[]" "[]"] by (simp add: named_modules_def)

lemma map_of_map_entry:
  "map_of (map (\<lambda>(name, child). (name, g name child)) cs) k = map_option (g k) (map_of cs k)"
  by (induction cs) auto

lemma get_at_update_at:
  "get_at m p = Some x \<Longrightarrow> get_at (update_at p f m) p = Some (f x)"
proof (induction p arbitrary: m)
  case Nil
  then show ?case by simp
next
  case (Cons k ks)
  obtain c b ps cs where m: "m = Module c b ps cs" by (cases m)
  from Cons.prems m obtain child where ch: "map_of cs k = Some child" "get_at child ks = Some x"
    by (auto split: option.splits)
  from Cons.IH[OF ch(2)] ch(1) show ?case
    by (simp add: m map_of_map_entry)
qed

lemma update_at_twice:
  "update_at p g (update_at p f m) = update_at p (g \<circ> f) m"
proof (induction p arbitrary: m)
  case Nil
  show ?case by simp
next
  case (Cons k ks)
  obtain c b ps cs where m: "m = Module c b ps cs" by (cases m)
  show ?case by (simp add: m Cons.IH split_def)
qed

lemma wf_module_child:
  "wf_module (Module c b ps cs) \<Longrightarrow> map_of cs k = Some child \<Longrightarrow> wf_module child"
  by (auto simp: list_all_iff dest: map_of_SomeD)

lemma wf_module_get_at:
  "wf_module m \<Longrightarrow> get_at m p = Some x \<Longrightarrow> wf_module x"
proof (induction p arbitrary: m)
  case Nil
  then show ?case by simp
next
  case (Cons k ks)
  obtain c b ps cs where m: "m = Module c b ps cs" by (cases m)
  from Cons.prems m obtain child where ch: "map_of cs k = Some child" "get_at child ks = Some x"
    by (auto split: option.splits)
  from wf_module_child[OF Cons.prems(1)[unfolded m] ch(1)] ch(2) show ?case
    by (rule Cons.IH)
qed

lemma update_at_id:
  "wf_module m \<Longrightarrow> get_at m p = Some x \<Longrightarrow> f x = x \<Longrightarrow> update_at p f m = m"
proof (induction p arbitrary: m)
  case Nil
  then show ?case by simp
next
  case (Cons k ks)
  obtain c b ps cs where m: "m = Module c b ps cs" by (cases m)
  from Cons.prems m obtain child where ch: "map_of cs k = Some child" "get_at child ks = Some x"
    by (auto split: option.splits)
  from Cons.prems(1) m have dk: "distinct (map fst cs)" by simp
  have wfc: "wf_module child" by (rule wf_module_child[OF Cons.prems(1)[unfolded m] ch(1)])
  have IH: "update_at ks f child = child" by (rule Cons.IH[OF wfc ch(2) Cons.prems(3)])
  have "(name, if name = k then update_at ks f chd else chd) = (name, chd)"
    if "(name, chd) \<in> set cs" for name chd
  proof (cases "name = k")
    case True
    with that dk have "map_of cs k = Some chd" by (simp add: map_of_is_SomeI)
    with ch(1) IH True show ?thesis by simp
  next
    case False
    then show ?thesis by simp
  qed
  then have "map (\<lambda>(name, chd). (name, if name = k then update_at ks f chd else chd)) cs = map (\<lambda>x. x) cs"
    by (intro map_cong) auto
  then show ?case by (simp add: m)
qed

lemma wf_module_update_at:
  "wf_module m \<Longrightarrow> get_at m p = Some x \<Longrightarrow> wf_module (f x) \<Longrightarrow> wf_module (update_at p f m)"
proof (induction p arbitrary: m)
  case Nil
  then show ?case by simp
next
  case (Cons k ks)
  obtain c b ps cs where m: "m = Module c b ps cs" by (cases m)
  from Cons.prems m obtain child where ch: "map_of cs k = Some child" "get_at child ks = Some x"
    by (auto split: option.splits)
  from Cons.prems(1) m have dk: "distinct (map fst cs)" by simp
  have wfc: "wf_module child" by (rule wf_module_child[OF Cons.prems(1)[unfolded m] ch(1)])
  have IH: "wf_module (update_at ks f child)" by (rule Cons.IH[OF wfc ch(2) Cons.prems(3)])
  let ?cs = "map (\<lambda>(name, chd). (name, if name = k then update_at ks f chd else chd)) cs"
  have keys: "map fst ?cs = map fst cs" by (induction cs) auto
  have "attr_name_ok name \<and> wf_module chd'" if "(name, chd') \<in> set ?cs" for name chd'
  proof -
    from that obtain chd where c: "(name, chd) \<in> set cs"
      "chd' = (if name = k then update_at ks f chd else chd)" by auto
    from c(1) Cons.prems(1) m have ok: "attr_name_ok name" "wf_module chd"
      by (auto simp: list_all_iff)
    show ?thesis
    proof (cases "name = k")
      case True
      with c(1) dk have "map_of cs k = Some chd" by (simp add: map_of_is_SomeI)
      with ch(1) IH True c(2) ok show ?thesis by simp
    next
      case False
      with c(2) ok show ?thesis by simp
    qed
  qed
  then have "\<forall>x \<in> set ?cs. (\<lambda>(k, child). attr_name_ok k \<and> wf_module child) x"
    by clarify blast
  then have la: "list_all (\<lambda>(k, child). attr_name_ok k \<and> wf_module child) ?cs"
    by (simp only: list_all_iff)
  from Cons.prems(1)[unfolded m wf_module.simps] la
  have "distinct (map fst ps @ map fst ?cs) \<and> list_all (\<lambda>(k, v). attr_name_ok k) ps
        \<and> list_all (\<lambda>(k, child). attr_name_ok k \<and> wf_module child) ?cs"
    unfolding keys by blast
  then show ?case unfolding m update_at.simps wf_module.simps .
qed

lemma get_at_append:
  "get_at m (p @ q) = (case get_at m p of None \<Rightarrow> None | Some x \<Rightarrow> get_at x q)"
  by (induction p arbitrary: m) (auto split: option.splits)

subsection \<open>The layers that the resolver returns are nodes of the tree\<close>

lemma fold_update_subset:
  "set (fold (\<lambda>(name, v) d. AList.update name v d) items acc) \<subseteq> set acc \<union> set items"
proof (induction items arbitrary: acc)
  case Nil
  show ?case by simp
next
  case (Cons x items)
  obtain k v where x: "x = (k, v)" by (cases x)
  from Cons.IH[of "AList.update k v acc"] set_update_subset[of k v acc]
  show ?case by (auto simp: x)
qed

lemma dict_of_subset: "set (dict_of items) \<subseteq> set items"
  using fold_update_subset[of items "[]"] by (simp add: dict_of_def)

lemma update_values:
  "snd ` set res \<subseteq> S \<Longrightarrow> v \<in> S \<Longrightarrow> snd ` set (AList.update k v res) \<subseteq> S"
  by (induction res) auto

lemma visit_layer_values:
  assumes "snd ` set res \<subseteq> S" and "Layer l \<in> S"
  shows "snd ` set (snd (visit_layer E ts params name l (tf, res))) \<subseteq> S"
proof -
  have "snd ` set (AList.update name (Layer l) res) \<subseteq> S"
    using assms by (rule update_values)
  with assms(1) show ?thesis
    by (simp add: visit_layer_def split: prod.splits)
qed

lemma visit_param_values:
  assumes "snd ` set res \<subseteq> S" and "Layer l \<in> S"
  shows "snd ` set (snd (visit_param E ts False name l np (tf, res))) \<subseteq> S"
proof -
  have "snd ` set (AList.update name (Layer l) res) \<subseteq> S"
    using assms by (rule update_values)
  with assms(1) show ?thesis
    by (simp add: visit_param_def split: prod.splits)
qed

lemma fold_values:
  assumes step: "\<And>x tf res. x \<in> set xs \<Longrightarrow> snd ` set res \<subseteq> S \<Longrightarrow> snd ` set (snd (f x (tf, res))) \<subseteq> S"
    and "snd ` set res \<subseteq> S"
  shows "snd ` set (snd (fold f xs (tf, res))) \<subseteq> S"
  using assms
proof (induction xs arbitrary: tf res)
  case Nil
  then show ?case by simp
next
  case (Cons x xs)
  obtain tf' res' where st: "f x (tf, res) = (tf', res')" by (cases "f x (tf, res)")
  from Cons.prems(1)[of x res tf] Cons.prems(2) st have r: "snd ` set res' \<subseteq> S" by simp
  have "snd ` set (snd (fold f xs (tf', res'))) \<subseteq> S"
    by (rule Cons.IH[OF _ r]) (rule Cons.prems(1), simp_all)
  with st show ?case by simp
qed

lemma visit_module_values:
  assumes "snd ` set res \<subseteq> S" and "Layer (snd nl) \<in> S"
  shows "snd ` set (snd (visit_module E ts False nl (tf, res))) \<subseteq> S"
proof -
  obtain raw l where nl: "nl = (raw, l)" by (cases nl)
  let ?name = "fix_fsdp_module_name E raw"
  obtain tf1 res1 where v1: "visit_layer E ts False ?name l (tf, res) = (tf1, res1)"
    by (cases "visit_layer E ts False ?name l (tf, res)")
  from visit_layer_values[OF assms(1), of l E ts False ?name tf] assms(2) v1 nl
  have r1: "snd ` set res1 \<subseteq> S" by simp
  have "snd ` set (snd (fold (visit_param E ts False ?name l) (named_parameters (snd l)) (tf1, res1))) \<subseteq> S"
    using assms(2) nl by (intro fold_values[OF _ r1] visit_param_values) simp_all
  then show ?thesis by (simp add: visit_module_def nl Let_def v1)
qed

lemma walk_values:
  "snd ` set (snd (walk E ts m False)) \<subseteq> {Layer l |l. \<exists>raw. (raw, l) \<in> set (named_modules m)}"
  unfolding walk_def
proof (rule fold_values)
  fix x :: "string \<times> 'a layer" and tf :: "bool list" and res :: "(string \<times> 'a entity) list"
  assume x: "x \<in> set (named_modules m)"
    and r: "snd ` set res \<subseteq> {Layer l |l. \<exists>raw. (raw, l) \<in> set (named_modules m)}"
  obtain raw l where xl: "x = (raw, l)" by (cases x)
  with x have "\<exists>raw'. (raw', snd x) \<in> set (named_modules m)" by (intro exI[of _ raw]) simp
  then have "Layer (snd x) \<in> {Layer l |l. \<exists>raw. (raw, l) \<in> set (named_modules m)}" by blast
  with r show "snd ` set (snd (visit_module E ts False x (tf, res)))
                 \<subseteq> {Layer l |l. \<exists>raw. (raw, l) \<in> set (named_modules m)}"
    by (rule visit_module_values)
next
  show "snd ` set [] \<subseteq> {Layer l |l. \<exists>raw. (raw, l) \<in> set (named_modules m)}" by simp
qed

lemma match_layers_params_values:
  assumes "match_layers_params E targets m False = Inr d" and "(k, e) \<in> set d"
  shows "\<exists>raw l. e = Layer l \<and> (raw, l) \<in> set (named_modules m)"
proof -
  have sent: "\<exists>raw l. e = Layer l \<and> (raw, l) \<in> set (named_modules m)"
    if "(k, e) \<in> set (values_or_params False (dict_of (filter P (named_modules m))))"
    for P :: "string \<times> 'a layer \<Rightarrow> bool"
  proof -
    from that obtain l where "e = Layer l" "(k, l) \<in> set (dict_of (filter P (named_modules m)))"
      by (auto simp: values_or_params_def)
    with dict_of_subset[of "filter P (named_modules m)"]
    have "e = Layer l" "(k, l) \<in> set (named_modules m)" by auto
    then show ?thesis by blast
  qed
  consider (a) "targets = Str ALL_TARGET" | (b) "targets \<noteq> Str ALL_TARGET" "targets = Str ALL_PRUNABLE_TARGET"
    | (c) "targets \<noteq> Str ALL_TARGET" "targets \<noteq> Str ALL_PRUNABLE_TARGET" "targets = Str ALL_QUANTIZABLE_TARGET"
    | (d) "targets \<noteq> Str ALL_TARGET" "targets \<noteq> Str ALL_PRUNABLE_TARGET" "targets \<noteq> Str ALL_QUANTIZABLE_TARGET"
    by blast
  then show ?thesis
  proof cases
    case a
    with assms(1) have "d = values_or_params False (dict_of (filter
        (\<lambda>(name, l). \<not> length (named_modules (snd l)) > 1) (named_modules m)))"
      by (simp add: match_layers_params_def get_terminal_layers_def)
    with assms(2) show ?thesis by (intro sent) simp
  next
    case b
    with assms(1) have "d = values_or_params False (dict_of (filter
        (\<lambda>(name, l). isinstance (snd l) Linear
        \<or> isinstance (snd l) ConvNd
        \<or> (has_QATLinear E \<and> isinstance (snd l) QATLinear)
        \<or> (has_QATConv2d E \<and> isinstance (snd l) QATConv2d)
        \<or> (has_QATConv3d E \<and> isinstance (snd l) QATConv3d)
        \<or> (has_TransformerConv1D E \<and> isinstance (snd l) TransformerConv1D)) (named_modules m)))"
      by (simp add: match_layers_params_def get_prunable_layers_def)
    with assms(2) show ?thesis by (intro sent) simp
  next
    case c
    with assms(1) have "d = values_or_params False (dict_of (filter
        (\<lambda>(name, l). isinstance (snd l) Linear \<or> isinstance (snd l) ConvNd) (named_modules m)))"
      by (simp add: match_layers_params_def get_quantizable_layers_def split: if_splits)
    with assms(2) show ?thesis by (intro sent) simp
  next
    case d
    with assms(1) have "d = snd (walk E (as_list targets) m False)"
      by (auto simp: match_layers_params_def Let_def split: prod.splits if_splits)
    with assms(2) have "e \<in> snd ` set (snd (walk E (as_list targets) m False))"
      by (intro image_eqI[of _ _ "(k, e)"]) simp_all
    with walk_values[of E "as_list targets" m]
    have "e \<in> {Layer l |l. \<exists>raw. (raw, l) \<in> set (named_modules m)}" by (rule rev_subsetD[rotated])
    then show ?thesis by blast
  qed
qed

lemma parent_layer_of_place:
  assumes "wf_module m" and "parent_layer_of E target m = Inr (p, P)"
  shows "get_at m p = Some P"
proof (cases "join_dot (butlast (split_dot target)) \<noteq> ''''")
  case True
  with assms(2) obtain name where "get_layer E (join_dot (butlast (split_dot target))) m = Inr (name, Layer (p, P))"
    by (auto simp: parent_layer_of_def Let_def split: sum.splits prod.splits entity.splits)
  then have "match_layers_params E (Str (join_dot (butlast (split_dot target)))) m False
               = Inr [(name, Layer (p, P))]"
    by (auto simp: get_layer_def get_layers_def split: sum.splits list.splits)
  from match_layers_params_values[OF this, of name "Layer (p, P)"]
  obtain raw l where "Layer (p, P) = Layer l" "(raw, l) \<in> set (named_modules m)" by auto
  then have "(raw, (p, P)) \<in> set (named_modules m)" by simp
  with assms(1) show ?thesis by (rule named_modules_place)
next
  case False
  with assms(2) show ?thesis
    by (simp add: parent_layer_of_def maybe_get_wrapped_def)
qed

lemma split_dot_nodot: "CHR ''.'' \<notin> set s \<Longrightarrow> split_dot s = [s]"
  by (induction s) auto

lemma parent_layer_of_nodot:
  "CHR ''.'' \<notin> set target \<Longrightarrow> parent_layer_of E target m = Inr ([], m)"
  by (simp add: parent_layer_of_def split_dot_nodot maybe_get_wrapped_def)

subsection \<open>Replacing a layer and putting it back\<close>

lemma set_layer_Inr:
  assumes "set_layer E target new m = Inr (AttrModule old, m')"
  obtains p c b ps cs where
    "parent_layer_of E target m = Inr (p, Module c b ps cs)"
    "map_of ps (last (split_dot target)) = None"
    "map_of cs (last (split_dot target)) = Some old"
    "m' = update_at p (\<lambda>_. Module c b ps (AList.update (last (split_dot target)) new cs)) m"
proof -
  from assms obtain p P P' where pl: "parent_layer_of E target m = Inr (p, P)"
    and ga: "getattr P (last (split_dot target)) = Inr (AttrModule old)"
    and sa: "setattr (last (split_dot target)) new P = Inr P'"
    and m': "m' = update_at p (\<lambda>_. P') m"
    by (auto simp: set_layer_def split: sum.splits)
  obtain c b ps cs where P: "P = Module c b ps cs" by (cases P)
  from ga P have n: "map_of ps (last (split_dot target)) = None"
    "map_of cs (last (split_dot target)) = Some old"
    by (auto simp: getattr_def split: option.splits)
  with sa P have "P' = Module c b ps (AList.update (last (split_dot target)) new cs)"
    by simp
  with pl P m' n that show thesis by blast
qed

text \<open>
  C6, as the code has it. On a well-formed tree, with a well-formed replacement: when
  \<^verbatim>\<open>set_layer\<close> has replaced the child module at the target, and the target has no dot
  or its parent path resolves to a layer at the same place of the changed tree, the
  second call with the displaced node returns the replacement and gives back the
  original tree. The first call returns the node that was attached under the parent at
  the last segment of the target, where the replacement sits afterwards.
\<close>

theorem set_layer_round_trip:
  assumes wf: "wf_module m" and wfn: "wf_module new"
    and first: "set_layer E target new m = Inr (AttrModule old, m')"
    and same: "CHR ''.'' \<in> set target \<longrightarrow>
                 map_sum id fst (parent_layer_of E target m')
                   = map_sum id fst (parent_layer_of E target m)"
  shows "set_layer E target old m' = Inr (AttrModule new, m)
       \<and> (\<exists>p P. parent_layer_of E target m = Inr (p, P)
              \<and> get_at m (p @ [last (split_dot target)]) = Some old
              \<and> get_at m' (p @ [last (split_dot target)]) = Some new)"
proof -
  let ?a = "last (split_dot target)"
  from first obtain p c b ps cs where
    pl: "parent_layer_of E target m = Inr (p, Module c b ps cs)"
    and nps: "map_of ps ?a = None" and ncs: "map_of cs ?a = Some old"
    and m': "m' = update_at p (\<lambda>_. Module c b ps (AList.update ?a new cs)) m"
    by (rule set_layer_Inr)
  let ?P = "Module c b ps cs"
  let ?P' = "Module c b ps (AList.update ?a new cs)"
  have gp: "get_at m p = Some ?P" by (rule parent_layer_of_place[OF wf pl])
  have wfP: "wf_module ?P" by (rule wf_module_get_at[OF wf gp])
  have keys: "map fst (AList.update ?a new cs) = map fst cs"
    using ncs by (induction cs) (auto split: if_splits)
  have ain: "(?a, old) \<in> set cs" using ncs by (rule map_of_SomeD)
  have "list_all (\<lambda>(k, child). attr_name_ok k \<and> wf_module child) (AList.update ?a new cs)"
  proof -
    from wfP ain have "attr_name_ok ?a" by (auto simp: list_all_iff)
    moreover from wfP have "\<forall>x \<in> set cs. (\<lambda>(k, child). attr_name_ok k \<and> wf_module child) x"
      by (simp add: list_all_iff)
    ultimately have "\<forall>x \<in> set (AList.update ?a new cs). (\<lambda>(k, child). attr_name_ok k \<and> wf_module child) x"
      using wfn set_update_subset[of ?a new cs] by auto
    then show ?thesis by (simp only: list_all_iff)
  qed
  with wfP have wfP': "wf_module ?P'" unfolding wf_module.simps keys by blast
  have wf': "wf_module m'"
    unfolding m' by (rule wf_module_update_at[of m p ?P "\<lambda>_. ?P'", OF wf gp wfP'])
  have gp': "get_at m' p = Some ?P'"
    unfolding m' by (rule get_at_update_at[of m p ?P "\<lambda>_. ?P'", OF gp])
  have "\<exists>P2. parent_layer_of E target m' = Inr (p, P2)"
  proof (cases "CHR ''.'' \<in> set target")
    case True
    with same pl have "map_sum id fst (parent_layer_of E target m') = Inr p" by simp
    then show ?thesis by (cases "parent_layer_of E target m'") auto
  next
    case False
    from parent_layer_of_nodot[OF False, of E m] pl have "p = []" by simp
    with parent_layer_of_nodot[OF False, of E m'] show ?thesis by simp
  qed
  then obtain P2 where pl2: "parent_layer_of E target m' = Inr (p, P2)" ..
  from parent_layer_of_place[OF wf' pl2] gp' have P2: "P2 = ?P'" by simp
  have ga2: "getattr P2 ?a = Inr (AttrModule new)"
    by (simp add: P2 getattr_def nps update_conv')
  have sa2: "setattr ?a old P2 = Inr ?P"
    by (simp add: P2 nps update_last update_triv[OF ncs])
  have undo: "((\<lambda>_. ?P) \<circ> (\<lambda>_. ?P')) ?P = ?P" by simp
  have "update_at p (\<lambda>_. ?P) m' = m"
    unfolding m' update_at_twice
    by (rule update_at_id[of m p ?P "(\<lambda>_. ?P) \<circ> (\<lambda>_. ?P')", OF wf gp undo])
  with pl2 ga2 sa2 have second: "set_layer E target old m' = Inr (AttrModule new, m)"
    by (simp add: set_layer_def)
  have "get_at m (p @ [?a]) = Some old"
    by (simp add: get_at_append gp ncs)
  moreover have "get_at m' (p @ [?a]) = Some new"
    by (simp add: get_at_append gp' update_conv')
  ultimately show ?thesis using second pl by blast
qed

theorem set_layer_round_trip_witness:
  "wf_module encoder_model \<and> wf_module (Module ''Fresh'' [] [(''weight'', 3::nat)] [])
   \<and> set_layer host_env ''Encoder.layer'' (Module ''Fresh'' [] [(''weight'', 3)] []) encoder_model =
       Inr (AttrModule (Module ''Layer'' [Linear] [(''weight'', 1)] []),
            Module ''Model'' [] []
              [(''Encoder'', Module ''TransformerEncoder'' [] []
                 [(''layer'', Module ''Fresh'' [] [(''weight'', 3)] [])]),
               (''head'', Module ''Head'' [Linear] [(''weight'', 2)] [])])
   \<and> set_layer host_env ''Encoder.layer'' (Module ''Layer'' [Linear] [(''weight'', 1)] [])
         (Module ''Model'' [] []
              [(''Encoder'', Module ''TransformerEncoder'' [] []
                 [(''layer'', Module ''Fresh'' [] [(''weight'', 3)] [])]),
               (''head'', Module ''Head'' [Linear] [(''weight'', 2)] [])]) =
       Inr (AttrModule (Module ''Fresh'' [] [(''weight'', 3)] []), encoder_model)"
proof -
  let ?new = "Module ''Fresh'' [] [(''weight'', 3::nat)] []"
  let ?old = "Module ''Layer'' [Linear] [(''weight'', 1::nat)] []"
  let ?m' = "Module ''Model'' [] []
              [(''Encoder'', Module ''TransformerEncoder'' [] []
                 [(''layer'', ?new)]),
               (''head'', Module ''Head'' [Linear] [(''weight'', 2::nat)] [])]"
  have h1: "wf_module encoder_model" by (simp add: encoder_model_def attr_name_ok_def)
  have h2: "wf_module ?new" by (simp add: attr_name_ok_def)
  have h3: "set_layer host_env ''Encoder.layer'' ?new encoder_model = Inr (AttrModule ?old, ?m')"
    by code_simp
  have "map_sum id fst (parent_layer_of host_env ''Encoder.layer'' ?m')
          = map_sum id fst (parent_layer_of host_env ''Encoder.layer'' encoder_model)"
    by code_simp
  then have h4: "CHR ''.'' \<in> set ''Encoder.layer'' \<longrightarrow>
      map_sum id fst (parent_layer_of host_env ''Encoder.layer'' ?m')
          = map_sum id fst (parent_layer_of host_env ''Encoder.layer'' encoder_model)"
    by (rule impI)
  from set_layer_round_trip[OF h1 h2 h3 h4] h1 h2 h3 show ?thesis by (simp only: simp_thms)
qed

text \<open>
  The round trip fails when the replacement's class is named like the parent path: the
  second call finds two layers for \<^verbatim>\<open>Encoder\<close> and raises.
\<close>

theorem set_layer_round_trip_counterexample:
  "wf_module encoder_model \<and> wf_module (Module ''Encoder'' [] [(''weight'', 3::nat)] [])
   \<and> get_layer host_env ''Encoder.layer'' encoder_model =
       Inr (''Encoder.layer'',
            Layer ([''Encoder'', ''layer''], Module ''Layer'' [Linear] [(''weight'', 1)] []))
   \<and> set_layer host_env ''Encoder.layer'' (Module ''Encoder'' [] [(''weight'', 3)] []) encoder_model =
       Inr (AttrModule (Module ''Layer'' [Linear] [(''weight'', 1)] []),
            Module ''Model'' [] []
              [(''Encoder'', Module ''TransformerEncoder'' [] []
                 [(''layer'', Module ''Encoder'' [] [(''weight'', 3)] [])]),
               (''head'', Module ''Head'' [Linear] [(''weight'', 2)] [])])
   \<and> set_layer host_env ''Encoder.layer'' (Module ''Layer'' [Linear] [(''weight'', 1::nat)] [])
         (Module ''Model'' [] []
              [(''Encoder'', Module ''TransformerEncoder'' [] []
                 [(''layer'', Module ''Encoder'' [] [(''weight'', 3)] [])]),
               (''head'', Module ''Head'' [Linear] [(''weight'', 2)] [])]) =
       Inl (ExpectedOne ''Encoder'' 2)"
proof -
  have a: "wf_module encoder_model" by (simp add: encoder_model_def attr_name_ok_def)
  have b: "wf_module (Module ''Encoder'' [] [(''weight'', 3::nat)] [])"
    by (simp add: attr_name_ok_def)
  have c: "get_layer host_env ''Encoder.layer'' encoder_model =
       Inr (''Encoder.layer'',
            Layer ([''Encoder'', ''layer''], Module ''Layer'' [Linear] [(''weight'', 1)] []))"
    by code_simp
  have d: "set_layer host_env ''Encoder.layer'' (Module ''Encoder'' [] [(''weight'', 3)] []) encoder_model =
       Inr (AttrModule (Module ''Layer'' [Linear] [(''weight'', 1)] []),
            Module ''Model'' [] []
              [(''Encoder'', Module ''TransformerEncoder'' [] []
                 [(''layer'', Module ''Encoder'' [] [(''weight'', 3)] [])]),
               (''head'', Module ''Head'' [Linear] [(''weight'', 2)] [])])"
    by code_simp
  have e: "set_layer host_env ''Encoder.layer'' (Module ''Layer'' [Linear] [(''weight'', 1)] [])
         (Module ''Model'' [] []
              [(''Encoder'', Module ''TransformerEncoder'' [] []
                 [(''layer'', Module ''Encoder'' [] [(''weight'', 3::nat)] [])]),
               (''head'', Module ''Head'' [Linear] [(''weight'', 2)] [])]) =
       Inl (ExpectedOne ''Encoder'' 2)"
    by code_simp
  from a b c d e show ?thesis by (simp only: simp_thms)
qed

subsection \<open>What the visit of a node leaves in the walk\<close>










end
